theory Spec2Isabelle
  imports Complex_Main "HOL-Library.Sublist"
begin

unbundle bit_operations_syntax

section \<open>JavaScript values\<close>

text \<open>
  The numbers the decoders handle are JavaScript numbers. The model keeps the finite ones
  as exact rationals and keeps \<open>NaN\<close> and \<open>undefined\<close> apart, because an array read
  out of range yields \<open>undefined\<close> and arithmetic on it yields \<open>NaN\<close>. Rounding of
  IEEE doubles is not part of the model.
\<close>

datatype jsval = Num rat | NaN | Undefined

fun toNumber :: "jsval \<Rightarrow> rat option" where
  "toNumber (Num r) = Some r"
| "toNumber NaN = None"
| "toNumber Undefined = None"

definition arith :: "(rat \<Rightarrow> rat \<Rightarrow> rat) \<Rightarrow> jsval \<Rightarrow> jsval \<Rightarrow> jsval" where
  "arith f a b =
     (case toNumber a of None \<Rightarrow> NaN
      | Some x \<Rightarrow> (case toNumber b of None \<Rightarrow> NaN | Some y \<Rightarrow> Num (f x y)))"

definition jadd :: "jsval \<Rightarrow> jsval \<Rightarrow> jsval" where
  "jadd = arith (+)"

definition jsub :: "jsval \<Rightarrow> jsval \<Rightarrow> jsval" where
  "jsub = arith (-)"

definition jmul :: "jsval \<Rightarrow> jsval \<Rightarrow> jsval" where
  "jmul = arith (*)"

text \<open>
  Division is only ever by a non-zero literal in the decoders below; a zero divisor
  (JavaScript's infinities) is outside the model and is mapped to \<open>NaN\<close>.
\<close>

definition jdiv :: "jsval \<Rightarrow> jsval \<Rightarrow> jsval" where
  "jdiv a b = (if toNumber b = Some 0 then NaN else arith (/) a b)"

text \<open>\<open>bytes[i]\<close>: a read past the end of a JavaScript array is \<open>undefined\<close>.\<close>

definition idx :: "jsval list \<Rightarrow> nat \<Rightarrow> jsval" where
  "idx bytes i = (if i < length bytes then bytes ! i else Undefined)"

section \<open>Parameter table (\<open>window.PIDS\<close>)\<close>

text \<open>
  A byte array argument is \<open>Some bytes\<close>, \<open>null\<close> is \<open>None\<close>; every array, the empty
  one too, is truthy. A result \<open>None\<close> is \<open>null\<close>.
\<close>

record pid =
  code :: string
  parse :: "jsval list option \<Rightarrow> jsval option"
  unit :: string

definition RPM :: pid where
  "RPM = \<lparr> code = ''010C'',
      parse = (\<lambda>bytes. case bytes of None \<Rightarrow> None | Some b \<Rightarrow> Some (jdiv (jadd (jmul (idx b 0) (Num 256)) (idx b 1)) (Num 4))),
      unit = ''RPM'' \<rparr>"

definition SPEED :: pid where
  "SPEED = \<lparr> code = ''010D'',
      parse = (\<lambda>bytes. case bytes of None \<Rightarrow> None | Some b \<Rightarrow> Some (idx b 0)),
      unit = ''km/h'' \<rparr>"

definition COOLANT :: pid where
  "COOLANT = \<lparr> code = ''0105'',
      parse = (\<lambda>bytes. case bytes of None \<Rightarrow> None | Some b \<Rightarrow> Some (jsub (idx b 0) (Num 40))),
      unit = [CHR 0xC2, CHR 0xB0, CHR ''C''] \<rparr>"

definition THROTTLE :: pid where
  "THROTTLE = \<lparr> code = ''0111'',
      parse = (\<lambda>bytes. case bytes of None \<Rightarrow> None | Some b \<Rightarrow> Some (jdiv (jmul (idx b 0) (Num 100)) (Num 255))),
      unit = ''%'' \<rparr>"

definition FUEL_LEVEL :: pid where
  "FUEL_LEVEL = \<lparr> code = ''012F'',
      parse = (\<lambda>bytes. case bytes of None \<Rightarrow> None | Some b \<Rightarrow> Some (jdiv (jmul (idx b 0) (Num 100)) (Num 255))),
      unit = ''%'' \<rparr>"

definition BATTERY :: pid where
  "BATTERY = \<lparr> code = ''0142'',
      parse = (\<lambda>bytes. case bytes of None \<Rightarrow> None | Some b \<Rightarrow> Some (jdiv (jadd (jmul (idx b 0) (Num 256)) (idx b 1)) (Num 1000))),
      unit = ''V'' \<rparr>"

definition ENGINE_LOAD :: pid where
  "ENGINE_LOAD = \<lparr> code = ''0104'',
      parse = (\<lambda>bytes. case bytes of None \<Rightarrow> None | Some b \<Rightarrow> Some (jdiv (jmul (idx b 0) (Num 100)) (Num 255))),
      unit = ''%'' \<rparr>"

definition TIMING_ADVANCE :: pid where
  "TIMING_ADVANCE = \<lparr> code = ''010E'',
      parse = (\<lambda>bytes. case bytes of None \<Rightarrow> None | Some b \<Rightarrow> Some (jdiv (jsub (idx b 0) (Num 128)) (Num 2))),
      unit = [CHR 0xC2, CHR 0xB0] \<rparr>"

definition INTAKE_TEMP :: pid where
  "INTAKE_TEMP = \<lparr> code = ''010F'',
      parse = (\<lambda>bytes. case bytes of None \<Rightarrow> None | Some b \<Rightarrow> Some (jsub (idx b 0) (Num 40))),
      unit = [CHR 0xC2, CHR 0xB0, CHR ''C''] \<rparr>"

definition MAF_RATE :: pid where
  "MAF_RATE = \<lparr> code = ''0110'',
      parse = (\<lambda>bytes. case bytes of None \<Rightarrow> None | Some b \<Rightarrow> Some (jdiv (jadd (jmul (idx b 0) (Num 256)) (idx b 1)) (Num 100))),
      unit = ''g/s'' \<rparr>"

definition SHORT_FUEL_TRIM_1 :: pid where
  "SHORT_FUEL_TRIM_1 = \<lparr> code = ''0106'',
      parse = (\<lambda>bytes. case bytes of None \<Rightarrow> None | Some b \<Rightarrow> Some (jdiv (jmul (jsub (idx b 0) (Num 128)) (Num 100)) (Num 128))),
      unit = ''%'' \<rparr>"

definition LONG_FUEL_TRIM_1 :: pid where
  "LONG_FUEL_TRIM_1 = \<lparr> code = ''0107'',
      parse = (\<lambda>bytes. case bytes of None \<Rightarrow> None | Some b \<Rightarrow> Some (jdiv (jmul (jsub (idx b 0) (Num 128)) (Num 100)) (Num 128))),
      unit = ''%'' \<rparr>"

definition O2_B1S1 :: pid where
  "O2_B1S1 = \<lparr> code = ''0114'',
      parse = (\<lambda>bytes. case bytes of None \<Rightarrow> None | Some b \<Rightarrow> Some (jdiv (idx b 0) (Num 200))),
      unit = ''V'' \<rparr>"

definition O2_B1S2 :: pid where
  "O2_B1S2 = \<lparr> code = ''0115'',
      parse = (\<lambda>bytes. case bytes of None \<Rightarrow> None | Some b \<Rightarrow> Some (jdiv (idx b 0) (Num 200))),
      unit = ''V'' \<rparr>"

text \<open>The table in the order of the source (the degree sign of the units is given by its two UTF-8 bytes).\<close>

definition PIDS :: "pid list" where
  "PIDS = [RPM, SPEED, COOLANT, THROTTLE, FUEL_LEVEL, BATTERY, ENGINE_LOAD, TIMING_ADVANCE, INTAKE_TEMP, MAF_RATE, SHORT_FUEL_TRIM_1, LONG_FUEL_TRIM_1, O2_B1S1, O2_B1S2]"

section \<open>Response clean-up (\<open>window.parseOBDResponse\<close>)\<close>

text \<open>
  Strings are lists of 8-bit characters. The adapter speaks printable ASCII, so the
  regular-expression classes and \<open>toUpperCase\<close> are given on ASCII.
\<close>

fun includesStr :: "string \<Rightarrow> string \<Rightarrow> bool" where
  "includesStr [] sub = (sub = [])"
| "includesStr (c # cs) sub = (prefix sub (c # cs) \<or> includesStr cs sub)"

definition isSpace :: "char \<Rightarrow> bool" where
  "isSpace c = (c \<in> set [CHR 0x09, CHR 0x0A, CHR 0x0B, CHR 0x0C, CHR 0x0D, CHR '' ''])"

definition ord :: "char \<Rightarrow> nat" where
  "ord c = of_char c"

definition between :: "char \<Rightarrow> char \<Rightarrow> char \<Rightarrow> bool" where
  "between lo hi c = (ord lo \<le> ord c \<and> ord c \<le> ord hi)"

definition toUpperCase :: "string \<Rightarrow> string" where
  "toUpperCase s = map (\<lambda>c. if between CHR ''a'' CHR ''z'' c then char_of (ord c - 32) else c) s"

definition isHexUpper :: "char \<Rightarrow> bool" where
  "isHexUpper c = (between CHR ''0'' CHR ''9'' c \<or> between CHR ''A'' CHR ''F'' c)"

text \<open>\<open>clean.replace(/^[0-9A-F]{2,3}/, '')\<close>: three characters when possible, else two.\<close>

fun stripHeader :: "string \<Rightarrow> string" where
  "stripHeader (a # b # c # rest) =
     (if isHexUpper a \<and> isHexUpper b then (if isHexUpper c then rest else c # rest)
      else a # b # c # rest)"
| "stripHeader [a, b] = (if isHexUpper a \<and> isHexUpper b then [] else [a, b])"
| "stripHeader s = s"

text \<open>\<open>s.replace(pat, '')\<close> with a string pattern removes the first occurrence only.\<close>

fun removeFirst :: "string \<Rightarrow> string \<Rightarrow> string" where
  "removeFirst pat [] = []"
| "removeFirst pat (c # cs) =
     (if prefix pat (c # cs) then drop (length pat) (c # cs) else c # removeFirst pat cs)"

text \<open>\<open>clean.match(/.{1,2}/g)\<close>: greedy chunks of two, \<open>null\<close> on the empty string.\<close>

fun pairs :: "string \<Rightarrow> string list" where
  "pairs (a # b # rest) = [a, b] # pairs rest"
| "pairs [a] = [[a]]"
| "pairs [] = []"

definition hexDigit :: "char \<Rightarrow> nat option" where
  "hexDigit c =
     (if between CHR ''0'' CHR ''9'' c then Some (ord c - 48)
      else if between CHR ''A'' CHR ''F'' c then Some (ord c - 55)
      else if between CHR ''a'' CHR ''f'' c then Some (ord c - 87)
      else None)"

text \<open>
  \<open>parseInt(p, 16)\<close> on a chunk of one or two characters without white space: an
  optional sign, an optional \<open>0x\<close> prefix, then the longest run of hexadecimal digits;
  \<open>NaN\<close> when that run is empty.
\<close>

fun hexRun :: "string \<Rightarrow> nat \<Rightarrow> nat option \<Rightarrow> nat option" where
  "hexRun [] acc seen = seen"
| "hexRun (c # cs) acc seen =
     (case hexDigit c of None \<Rightarrow> seen
      | Some d \<Rightarrow> hexRun cs (16 * acc + d) (Some (16 * acc + d)))"

definition stripHexPrefix :: "string \<Rightarrow> string" where
  "stripHexPrefix s =
     (case s of a # b # rest \<Rightarrow> (if a = CHR ''0'' \<and> (b = CHR ''x'' \<or> b = CHR ''X'') then rest else s)
      | _ \<Rightarrow> s)"

definition parseInt16 :: "string \<Rightarrow> jsval" where
  "parseInt16 p =
     (let (neg, body) =
            (case p of c # cs \<Rightarrow>
               (if c = CHR ''-'' then (True, cs) else if c = CHR ''+'' then (False, cs) else (False, p))
             | [] \<Rightarrow> (False, p))
      in case hexRun (stripHexPrefix body) 0 None of
           None \<Rightarrow> NaN
         | Some n \<Rightarrow> Num (if neg then - of_nat n else of_nat n))"

text \<open>
  The response is \<open>None\<close> for \<open>null\<close>/\<open>undefined\<close>; the expected echo is a string, falsy
  when empty.
\<close>

definition parseOBDResponse :: "string option \<Rightarrow> string \<Rightarrow> jsval list option" where
  "parseOBDResponse hex expectedMode =
     (case hex of None \<Rightarrow> None
      | Some h \<Rightarrow>
          if h = [] \<or> includesStr h ''NO DATA'' \<or> includesStr h ''?'' \<or> includesStr h ''ERROR'' then None
          else
            let clean = toUpperCase (filter (\<lambda>c. \<not> isSpace c) h);
                clean = stripHeader clean;
                clean = (if expectedMode \<noteq> [] then removeFirst expectedMode clean else clean);
                ps = pairs clean
            in if ps = [] then None else Some (map parseInt16 ps))"

section \<open>Bitwise operators\<close>

text \<open>
  JavaScript's \<open>&\<close>, \<open>|\<close> and \<open>&lt;&lt;\<close> first convert their operands with ToInt32:
  \<open>NaN\<close> and \<open>undefined\<close> become 0, a number is truncated towards zero and wrapped into
  the signed 32-bit range.
\<close>

definition truncInt :: "rat \<Rightarrow> int" where
  "truncInt r = (if 0 \<le> r then \<lfloor>r\<rfloor> else \<lceil>r\<rceil>)"

definition toInt32 :: "jsval \<Rightarrow> int" where
  "toInt32 v = (case toNumber v of None \<Rightarrow> 0 | Some r \<Rightarrow> signed_take_bit 31 (truncInt r))"

definition band :: "jsval \<Rightarrow> int \<Rightarrow> int" where
  "band a m = toInt32 a AND signed_take_bit 31 m"

definition shl :: "jsval \<Rightarrow> nat \<Rightarrow> int" where
  "shl a k = signed_take_bit 31 (push_bit (k mod 32) (toInt32 a))"

definition bor :: "int \<Rightarrow> jsval \<Rightarrow> int" where
  "bor x b = signed_take_bit 31 x OR toInt32 b"

section \<open>Readiness monitors (\<open>ReadinessApp.parseStatus\<close>)\<close>

record monitor =
  supported :: bool
  complete :: bool

record monitors =
  misfire :: monitor
  fuelSystem :: monitor
  components :: monitor
  catalyst :: monitor
  heatedCatalyst :: monitor
  evapSystem :: monitor
  secondaryAir :: monitor
  acRefrigerant :: monitor
  oxygenSensor :: monitor
  oxygenSensorHeater :: monitor
  egrSystem :: monitor

record readiness_app =
  monitors :: monitors
  milStatus :: bool
  dtcCount :: int

definition unset :: monitor where
  "unset = \<lparr> supported = False, complete = False \<rparr>"

text \<open>The object as the module declares it, before any status has been read.\<close>

definition ReadinessApp :: readiness_app where
  "ReadinessApp = \<lparr> monitors = \<lparr> misfire = unset, fuelSystem = unset, components = unset,
       catalyst = unset, heatedCatalyst = unset, evapSystem = unset, secondaryAir = unset,
       acRefrigerant = unset, oxygenSensor = unset, oxygenSensorHeater = unset,
       egrSystem = unset \<rparr>,
     milStatus = False, dtcCount = 0 \<rparr>"

text \<open>
  The assignments of the source in their order. Byte B is \<open>bytes[1]\<close> (the local
  \<open>supported\<close>), byte C is \<open>bytes[2]\<close> (the local \<open>complete\<close>). No assignment is made to
  \<open>acRefrigerant\<close>, which keeps the value it had.
\<close>

definition parseStatus :: "jsval list \<Rightarrow> readiness_app \<Rightarrow> readiness_app" where
  "parseStatus bytes app =
     (let sup = idx bytes 1;
          com = idx bytes 2;
          continuous = (\<lambda>m. \<lparr> supported = True, complete = (band com m = 0) \<rparr>);
          nonContinuous = (\<lambda>m. \<lparr> supported = (band sup m \<noteq> 0),
                                   complete = (band sup m \<noteq> 0 \<and> band com m = 0) \<rparr>)
      in app\<lparr> milStatus := (band (idx bytes 0) 0x80 \<noteq> 0),
              dtcCount := band (idx bytes 0) 0x7F,
              monitors := (monitors app)\<lparr>
                misfire := continuous 0x10,
                fuelSystem := continuous 0x20,
                components := continuous 0x40,
                catalyst := nonContinuous 0x01,
                heatedCatalyst := nonContinuous 0x02,
                evapSystem := nonContinuous 0x04,
                secondaryAir := nonContinuous 0x08,
                oxygenSensor := nonContinuous 0x20,
                oxygenSensorHeater := nonContinuous 0x40,
                egrSystem := nonContinuous 0x80 \<rparr> \<rparr>)"

section \<open>On-board monitoring test table (\<open>MonitoringApp.parseTestResults\<close>)\<close>

record test_info =
  testName :: string
  testUnit :: string
  description :: string

datatype level = excellent | good | fair | warning

text \<open>
  A result row. The source's fields \<open>min\<close>, \<open>max\<close> and \<open>value\<close> are \<open>min_val\<close>,
  \<open>max_val\<close> and \<open>cur_val\<close>; of the status object the \<open>level\<close> is kept (label and
  colour are presentation).
\<close>

record test_result =
  testID :: string
  componentID :: string
  info :: test_info
  min_val :: rat
  max_val :: rat
  cur_val :: rat
  percentToLimit :: rat
  status :: level

definition testIDs :: "(string \<times> test_info) list" where
  "testIDs = [
     (''0100'', \<lparr> testName = ''Catalyst Monitor Bank 1'', testUnit = ''ratio'', description = ''Catalyst efficiency ratio'' \<rparr>),
     (''0200'', \<lparr> testName = ''Catalyst Monitor Bank 2'', testUnit = ''ratio'', description = ''Catalyst efficiency ratio'' \<rparr>),
     (''0501'', \<lparr> testName = ''O2 Sensor Bank 1 Sensor 1'', testUnit = ''V'', description = ''Rich to lean sensor threshold'' \<rparr>),
     (''0502'', \<lparr> testName = ''O2 Sensor Bank 1 Sensor 2'', testUnit = ''V'', description = ''Rich to lean sensor threshold'' \<rparr>),
     (''0601'', \<lparr> testName = ''O2 Sensor Bank 2 Sensor 1'', testUnit = ''V'', description = ''Rich to lean sensor threshold'' \<rparr>),
     (''0602'', \<lparr> testName = ''O2 Sensor Bank 2 Sensor 2'', testUnit = ''V'', description = ''Rich to lean sensor threshold'' \<rparr>),
     (''0300'', \<lparr> testName = ''EGR System Monitor'', testUnit = ''%'', description = ''EGR flow test'' \<rparr>),
     (''0A00'', \<lparr> testName = ''EVAP System Leak'', testUnit = ''kPa'', description = ''Vapor pressure'' \<rparr>),
     (''0B01'', \<lparr> testName = ''Misfire Cylinder 1'', testUnit = ''count'', description = ''Misfire events'' \<rparr>),
     (''0B02'', \<lparr> testName = ''Misfire Cylinder 2'', testUnit = ''count'', description = ''Misfire events'' \<rparr>),
     (''0B03'', \<lparr> testName = ''Misfire Cylinder 3'', testUnit = ''count'', description = ''Misfire events'' \<rparr>),
     (''0B04'', \<lparr> testName = ''Misfire Cylinder 4'', testUnit = ''count'', description = ''Misfire events'' \<rparr>),
     (''0B05'', \<lparr> testName = ''Misfire Cylinder 5'', testUnit = ''count'', description = ''Misfire events'' \<rparr>),
     (''0B06'', \<lparr> testName = ''Misfire Cylinder 6'', testUnit = ''count'', description = ''Misfire events'' \<rparr>),
     (''2100'', \<lparr> testName = ''Fuel System Rich/Lean'', testUnit = ''%'', description = ''Fuel trim deviation'' \<rparr>)]"

definition parseSignedInt16 :: "jsval \<Rightarrow> jsval \<Rightarrow> int" where
  "parseSignedInt16 highByte lowByte =
     (let v = bor (shl highByte 8) lowByte in if v > 32767 then v - 65536 else v)"

definition evaluateTestStatus :: "rat \<Rightarrow> level" where
  "evaluateTestStatus p =
     (if p < 50 then excellent else if p < 75 then good else if p < 90 then fair else warning)"

text \<open>
  \<open>n.toString(16).padStart(2, '0')\<close>. The array elements come from \<open>parseInt16\<close>, so
  they are integers or \<open>NaN\<close>; the digits of a fraction are not modelled. The loop calls
  it on elements in range only, so the case of \<open>undefined\<close>, where the source would raise,
  does not arise.
\<close>

definition hexChar :: "nat \<Rightarrow> char" where
  "hexChar d = (if d < 10 then char_of (48 + d) else char_of (87 + d))"

fun hexNat :: "nat \<Rightarrow> string" where
  "hexNat n = (if n < 16 then [hexChar n] else hexNat (n div 16) @ [hexChar (n mod 16)])"

definition toString16 :: "jsval \<Rightarrow> string" where
  "toString16 v =
     (case v of Num r \<Rightarrow> (if r < 0 then CHR ''-'' # hexNat (nat (- truncInt r)) else hexNat (nat (truncInt r)))
      | NaN \<Rightarrow> ''NaN''
      | Undefined \<Rightarrow> ''undefined'')"

definition padStart2 :: "string \<Rightarrow> string" where
  "padStart2 s = replicate (2 - length s) CHR ''0'' @ s"

text \<open>The body of the loop for the record that starts at index \<open>i\<close>.\<close>

definition testRecord :: "jsval list \<Rightarrow> nat \<Rightarrow> test_result" where
  "testRecord bytes i =
     (let tid = padStart2 (toString16 (idx bytes i));
          compid = padStart2 (toString16 (idx bytes (i + 1)));
          testKey = tid @ compid;
          minValue = parseSignedInt16 (idx bytes (i + 2)) (idx bytes (i + 3));
          maxValue = parseSignedInt16 (idx bytes (i + 4)) (idx bytes (i + 5));
          currentValue = parseSignedInt16 (idx bytes (i + 6)) (idx bytes (i + 7));
          scale = (1 / 1000 :: rat);
          testInfo = (case map_of testIDs testKey of Some t \<Rightarrow> t
                      | None \<Rightarrow> \<lparr> testName = ''Test '' @ tid @ '' Component '' @ compid,
                                   testUnit = ''units'', description = ''Unknown test'' \<rparr>);
          range = maxValue - minValue;
          position = currentValue - minValue;
          pct = (if range > 0 then (of_int position / of_int range) * 100 else 0)
      in \<lparr> testID = tid, componentID = compid, info = testInfo,
           min_val = of_int minValue * scale, max_val = of_int maxValue * scale,
           cur_val = of_int currentValue * scale,
           percentToLimit = pct, status = evaluateTestStatus pct \<rparr>)"

text \<open>\<open>while (i &lt; bytes.length - 6)\<close>, pushing one row per turn onto \<open>testResults\<close>.\<close>

function testLoop :: "jsval list \<Rightarrow> nat \<Rightarrow> test_result list \<Rightarrow> test_result list" where
  "testLoop bytes i results =
     (if int i < int (length bytes) - 6
      then testLoop bytes (i + 8) (results @ [testRecord bytes i])
      else results)"
  by pat_completeness auto
termination
  by (relation "measure (\<lambda>(bytes, i, results). length bytes - i)") auto

definition parseTestResults :: "string option \<Rightarrow> test_result list \<Rightarrow> test_result list" where
  "parseTestResults hex testResults =
     (case parseOBDResponse hex ''4600'' of None \<Rightarrow> testResults
      | Some bytes \<Rightarrow> if length bytes < 4 then testResults else testLoop bytes 0 testResults)"

section \<open>Trend analysis (\<open>PredictiveApp.calculateTrend\<close>)\<close>

record point =
  timestamp :: int
  pvalue :: rat

record trend =
  slope :: rat
  intercept :: rat

text \<open>The \<open>forEach\<close> accumulation, one step per point with its index.\<close>

definition accumulate :: "nat \<times> point \<Rightarrow> rat \<times> rat \<times> rat \<times> rat \<Rightarrow> rat \<times> rat \<times> rat \<times> rat" where
  "accumulate ip acc =
     (case (ip, acc) of ((i, p), (sumX, sumY, sumXY, sumXX)) \<Rightarrow>
        (let x = of_nat i; y = pvalue p
         in (sumX + x, sumY + y, sumXY + x * y, sumXX + x * x)))"

definition calculateTrend :: "point list \<Rightarrow> trend" where
  "calculateTrend data =
     (if length data < 2 then \<lparr> slope = 0, intercept = 0 \<rparr>
      else
        let n = of_nat (length data);
            (sumX, sumY, sumXY, sumXX) = fold accumulate (enumerate 0 data) (0, 0, 0, 0);
            sl = (n * sumXY - sumX * sumY) / (n * sumXX - sumX * sumX);
            ic = (sumY - sl * sumX) / n
        in \<lparr> slope = sl, intercept = ic \<rparr>)"

section \<open>Polling modules (\<open>EngineApp\<close>, \<open>TimingApp\<close>, \<open>EmissionsApp\<close>, \<open>BatteryApp\<close>)\<close>

text \<open>
  The modules share the polling fields; \<open>supported\<close> is an object of flags in the engine,
  timing and emissions modules and a single flag in the battery module. Fields used by
  rendering and analysis only (thresholds, alert memory, session statistics) and the timer
  handle \<open>updateInterval\<close> are left out: a tick is a call of \<open>tick()\<close>.
\<close>

record 'f polling_module =
  isActive :: bool
  supported :: 'f
  consecutiveErrors :: int
  maxErrors :: int

text \<open>
  \<open>window.obd\<close> is \<open>null\<close>, the object \<open>{ connected: true }\<close> of the demo mode, which has no
  \<open>sendCommand\<close>, or the kernel, with its field \<open>connected\<close>.
\<close>

datatype obd = Null | Demo | Adapter bool

text \<open>
  What a piece of module code sees of the rest of the page when it runs: the dashboard tab
  and the engine view, \<open>window.obd\<close>, \<open>window.isSimulating\<close>, and whether the rendering and
  analysis code, which works on the DOM and the log, raises.
\<close>

record env =
  dashVisible :: bool
  engineViewVisible :: bool
  obd :: obd
  isSimulating :: bool
  uiRaises :: bool

text \<open>\<open>window.obd?.connected\<close>.\<close>

definition obdConnected :: "env \<Rightarrow> bool" where
  "obdConnected e = (case obd e of Null \<Rightarrow> False | Demo \<Rightarrow> True | Adapter c \<Rightarrow> c)"

text \<open>
  Whether \<open>window.obd.sendCommand(code)\<close> is a call of the kernel; otherwise the expression
  raises a \<open>TypeError\<close> inside the \<open>try\<close>.
\<close>

definition canSend :: "env \<Rightarrow> bool" where
  "canSend e = (case obd e of Adapter c \<Rightarrow> True | _ \<Rightarrow> False)"

subsection \<open>Updates that overlap\<close>

text \<open>
  \<open>tick\<close>, \<open>update\<close> and \<open>fetchData\<close> are asynchronous and the modules have no busy flag: a
  tick of the interval timer starts an update while earlier ones are still suspended at
  \<open>await window.obd.sendCommand(code)\<close>. The code of a module is therefore cut at these
  \<open>await\<close>s, like that of the kernel.

  A \<open>fetchData\<close> is a sequence of guarded blocks
  \<open>if (this.supported.x) { try { raw = await sendCommand(code); data.x = parse(...) } catch { this.supported.x = false } }\<close>.
  A block is given by its guard, its parameter, the echo looked for in the response, what
  it does with the decoded value and what its \<open>catch\<close> does.
\<close>

record ('a, 'd) block =
  flagSet :: "'a \<Rightarrow> bool"
  pidOf :: pid
  echoOf :: string
  onReply :: "jsval option \<Rightarrow> 'a \<times> 'd \<Rightarrow> 'a \<times> 'd"
  onThrow :: "'a \<Rightarrow> 'a"

text \<open>
  A suspended update: the number of the request it awaits among the calls of \<open>sendCommand\<close>
  made by the module, the block that made the request, the data object so far, and what
  called the fetch. \<open>calls\<close> lists the codes passed to \<open>sendCommand\<close>, in the order of the
  calls.
\<close>

record ('d, 'k) task =
  ticket :: nat
  pc :: nat
  got :: 'd
  caller :: 'k

record ('a, 'd, 'k) polling =
  self :: 'a
  tasks :: "('d, 'k) task list"
  calls :: "string list"

text \<open>A module as it is loaded: no update is pending and no request has been made.\<close>

definition loaded :: "'a \<Rightarrow> ('a, 'd, 'k) polling" where
  "loaded a = \<lparr> self = a, tasks = [], calls = [] \<rparr>"

text \<open>
  Running the blocks up to the first call of \<open>sendCommand\<close>: a block whose flag is cleared
  is skipped; a block whose flag is set calls the kernel, or, when \<open>window.obd\<close> has no
  \<open>sendCommand\<close>, raises at once and runs its \<open>catch\<close>. The result is the module afterwards
  and the block that called the kernel, with its number, if there is one.
\<close>

fun seek :: "bool \<Rightarrow> ('a, 'd) block list \<Rightarrow> nat \<Rightarrow> 'a \<Rightarrow> 'a \<times> (nat \<times> ('a, 'd) block) option" where
  "seek ok [] n a = (a, None)"
| "seek ok (b # bs) n a =
     (if flagSet b a then (if ok then (a, Some (n, b)) else seek ok bs (Suc n) (onThrow b a))
      else seek ok bs (Suc n) a)"

text \<open>
  \<open>fetchData\<close> from block \<open>n\<close> on, for the caller \<open>k\<close>: it suspends at the next request, or
  returns the data object, upon which \<open>rest\<close>, the code of the caller after
  \<open>await this.fetchData()\<close>, runs.
\<close>

definition fetchData ::
  "('a, 'd) block list \<Rightarrow> ('k \<Rightarrow> env \<Rightarrow> 'd \<Rightarrow> 'a \<Rightarrow> 'a) \<Rightarrow> env \<Rightarrow> nat \<Rightarrow> 'd \<Rightarrow> 'k \<Rightarrow>
   ('a, 'd, 'k) polling \<Rightarrow> ('a, 'd, 'k) polling" where
  "fetchData blocks rest e n data k st =
     (case seek (canSend e) (drop n blocks) n (self st) of
        (a, Some (j, b)) \<Rightarrow>
          st\<lparr> self := a,
              tasks := tasks st @ [\<lparr> ticket = length (calls st), pc = j, got = data, caller = k \<rparr>],
              calls := calls st @ [code (pidOf b)] \<rparr>
      | (a, None) \<Rightarrow> st\<lparr> self := rest k e data a \<rparr>)"

text \<open>
  The promise of request \<open>r\<close> settles, with the response text or, when it is rejected, with
  \<open>None\<close>: the update that awaits it goes on in its block, with the decoding or with the
  \<open>catch\<close>, and then with the blocks after it. A promise settles once: the update that
  awaited it waits for another request afterwards, or is over.
\<close>

definition resume ::
  "('a, 'd) block list \<Rightarrow> ('k \<Rightarrow> env \<Rightarrow> 'd \<Rightarrow> 'a \<Rightarrow> 'a) \<Rightarrow> nat \<Rightarrow> string option \<Rightarrow> env \<Rightarrow>
   ('a, 'd, 'k) polling \<Rightarrow> ('a, 'd, 'k) polling" where
  "resume blocks rest r outcome e st =
     (case find (\<lambda>t. ticket t = r) (tasks st) of
        None \<Rightarrow> st
      | Some t \<Rightarrow>
          (case drop (pc t) blocks of
             [] \<Rightarrow> st
           | b # later \<Rightarrow>
               let (a, data) =
                     (case outcome of
                        Some raw \<Rightarrow> onReply b (parse (pidOf b) (parseOBDResponse (Some raw) (echoOf b))) (self st, got t)
                      | None \<Rightarrow> (onThrow b (self st), got t))
               in fetchData blocks rest e (Suc (pc t)) data (caller t)
                    (st\<lparr> self := a, tasks := filter (\<lambda>u. ticket u \<noteq> r) (tasks st) \<rparr>)))"

text \<open>
  What can happen to a module: a timer tick, the settling of one of its requests,
  \<open>activate\<close>, \<open>deactivate\<close> and \<open>shutdown\<close>. \<open>shutdown\<close> is the only operation of the source
  that writes 0 to the counter without a poll.
\<close>

datatype op = Tick env | Settled nat "string option" env | Activate | Deactivate | Shutdown

definition session :: "('o \<Rightarrow> 's \<Rightarrow> 's) \<Rightarrow> 'o list \<Rightarrow> 's \<Rightarrow> 's" where
  "session f ops st = fold f ops st"

text \<open>The calls of \<open>sendCommand\<close> made between two states of a module.\<close>

definition newCalls :: "('a, 'd, 'k) polling \<Rightarrow> ('a, 'd, 'k) polling \<Rightarrow> string list" where
  "newCalls st st' = drop (length (calls st)) (calls st')"


text \<open>Going from \<open>st\<close> to \<open>st'\<close> only adds calls, and none of them with the code \<open>c\<close>.\<close>

definition quietFor :: "string \<Rightarrow> ('a, 'd, 'k) polling \<Rightarrow> ('a, 'd, 'k) polling \<Rightarrow> bool" where
  "quietFor c st st' \<longleftrightarrow> (\<exists>new. calls st' = calls st @ new \<and> c \<notin> set new)"

subsection \<open>Engine performance\<close>

text \<open>
  The flag for the manifold pressure, \<open>map\<close> in the source, is \<open>mapFlag\<close>. Engine speed
  and vehicle speed are fetched on every update, without a flag and with an empty \<open>catch\<close>;
  \<open>map\<close> and \<open>baro\<close> have a flag and are never fetched. The fields of the data object that
  are never assigned after its creation are left out.
\<close>

record engine_flags =
  mapFlag :: bool
  iat :: bool
  maf :: bool
  load :: bool
  timing :: bool
  baro :: bool

record engine_data =
  e_rpm :: "jsval option"
  e_speed :: "jsval option"
  e_load :: "jsval option"
  e_timing :: "jsval option"
  e_iat :: "jsval option"
  e_maf :: "jsval option"

type_synonym engine_app = "engine_flags polling_module"

type_synonym engine_state = "(engine_app, engine_data, bool) polling"

definition EngineApp :: engine_app where
  "EngineApp = \<lparr> isActive = False,
       supported = \<lparr> mapFlag = True, iat = True, maf = True, load = True, timing = True, baro = True \<rparr>,
       consecutiveErrors = 0, maxErrors = 3 \<rparr>"

definition engine_blocks :: "(engine_app, engine_data) block list" where
  "engine_blocks =
     [\<lparr> flagSet = (\<lambda>a. True), pidOf = RPM, echoOf = ''410C'',
        onReply = (\<lambda>v (a, d). (a, d\<lparr> e_rpm := v \<rparr>)), onThrow = (\<lambda>a. a) \<rparr>,
      \<lparr> flagSet = (\<lambda>a. True), pidOf = SPEED, echoOf = ''410D'',
        onReply = (\<lambda>v (a, d). (a, d\<lparr> e_speed := v \<rparr>)), onThrow = (\<lambda>a. a) \<rparr>,
      \<lparr> flagSet = (\<lambda>a. load (supported a)), pidOf = ENGINE_LOAD, echoOf = ''4104'',
        onReply = (\<lambda>v (a, d). (a, d\<lparr> e_load := v \<rparr>)),
        onThrow = (\<lambda>a. a\<lparr> supported := (supported a)\<lparr> load := False \<rparr> \<rparr>) \<rparr>,
      \<lparr> flagSet = (\<lambda>a. timing (supported a)), pidOf = TIMING_ADVANCE, echoOf = ''410E'',
        onReply = (\<lambda>v (a, d). (a, d\<lparr> e_timing := v \<rparr>)),
        onThrow = (\<lambda>a. a\<lparr> supported := (supported a)\<lparr> timing := False \<rparr> \<rparr>) \<rparr>,
      \<lparr> flagSet = (\<lambda>a. iat (supported a)), pidOf = INTAKE_TEMP, echoOf = ''410F'',
        onReply = (\<lambda>v (a, d). (a, d\<lparr> e_iat := v \<rparr>)),
        onThrow = (\<lambda>a. a\<lparr> supported := (supported a)\<lparr> iat := False \<rparr> \<rparr>) \<rparr>,
      \<lparr> flagSet = (\<lambda>a. maf (supported a)), pidOf = MAF_RATE, echoOf = ''4110'',
        onReply = (\<lambda>v (a, d). (a, d\<lparr> e_maf := v \<rparr>)),
        onThrow = (\<lambda>a. a\<lparr> supported := (supported a)\<lparr> maf := False \<rparr> \<rparr>) \<rparr>]"

text \<open>
  The rest of \<open>update\<close> after the fetch: the data object is truthy, so \<open>trackPerformance\<close>
  runs, then \<open>render\<close> when \<open>updateUI\<close> is set, and the counter is reset; when one of them
  raises, the \<open>catch\<close> increments the counter instead.
\<close>

definition engine_rest :: "bool \<Rightarrow> env \<Rightarrow> engine_data \<Rightarrow> engine_app \<Rightarrow> engine_app" where
  "engine_rest updateUI e data a =
     (if uiRaises e then a\<lparr> consecutiveErrors := consecutiveErrors a + 1 \<rparr>
      else a\<lparr> consecutiveErrors := 0 \<rparr>)"

definition engine_fetchData :: "env \<Rightarrow> bool \<Rightarrow> engine_state \<Rightarrow> engine_state" where
  "engine_fetchData e updateUI st =
     fetchData engine_blocks engine_rest e 0
       \<lparr> e_rpm = None, e_speed = None, e_load = None, e_timing = None, e_iat = None, e_maf = None \<rparr>
       updateUI st"

definition engine_update :: "env \<Rightarrow> bool \<Rightarrow> engine_state \<Rightarrow> engine_state" where
  "engine_update e updateUI st = (if isSimulating e then st else engine_fetchData e updateUI st)"

definition engine_tick :: "env \<Rightarrow> engine_state \<Rightarrow> engine_state" where
  "engine_tick e st =
     (let isEngineViewVisible = engineViewVisible e;
          isConnected = (obdConnected e \<or> isSimulating e)
      in if isConnected \<and> isActive (self st) \<and> consecutiveErrors (self st) < maxErrors (self st)
         then engine_update e isEngineViewVisible st
         else st)"

definition engine_shutdown :: "engine_app \<Rightarrow> engine_app" where
  "engine_shutdown a = a\<lparr> isActive := False, consecutiveErrors := 0 \<rparr>"

definition engine_op :: "op \<Rightarrow> engine_state \<Rightarrow> engine_state" where
  "engine_op opn st =
     (case opn of
        Tick e \<Rightarrow> engine_tick e st
      | Settled r outcome e \<Rightarrow> resume engine_blocks engine_rest r outcome e st
      | Activate \<Rightarrow> st\<lparr> self := (self st)\<lparr> isActive := True \<rparr> \<rparr>
      | Deactivate \<Rightarrow> st\<lparr> self := (self st)\<lparr> isActive := False \<rparr> \<rparr>
      | Shutdown \<Rightarrow> st\<lparr> self := engine_shutdown (self st) \<rparr>)"

subsection \<open>Timing and load\<close>

record timing_flags =
  timing :: bool
  load :: bool

record timing_data =
  d_timing :: "jsval option"
  d_load :: "jsval option"

type_synonym timing_app = "timing_flags polling_module"

type_synonym timing_state = "(timing_app, timing_data, unit) polling"

definition TimingApp :: timing_app where
  "TimingApp = \<lparr> isActive = False, supported = \<lparr> timing = True, load = True \<rparr>,
                 consecutiveErrors = 0, maxErrors = 3 \<rparr>"

definition timing_blocks :: "(timing_app, timing_data) block list" where
  "timing_blocks =
     [\<lparr> flagSet = (\<lambda>a. timing (supported a)), pidOf = TIMING_ADVANCE, echoOf = ''410E'',
        onReply = (\<lambda>v (a, d). (a, d\<lparr> d_timing := v \<rparr>)),
        onThrow = (\<lambda>a. a\<lparr> supported := (supported a)\<lparr> timing := False \<rparr> \<rparr>) \<rparr>,
      \<lparr> flagSet = (\<lambda>a. load (supported a)), pidOf = ENGINE_LOAD, echoOf = ''4104'',
        onReply = (\<lambda>v (a, d). (a, d\<lparr> d_load := v \<rparr>)),
        onThrow = (\<lambda>a. a\<lparr> supported := (supported a)\<lparr> load := False \<rparr> \<rparr>) \<rparr>]"

text \<open>
  The rest of \<open>update\<close> after the fetch: the fetched object is always truthy, so the module
  renders and resets the counter, or increments it in the \<open>catch\<close> when rendering raised.
\<close>

definition timing_rest :: "unit \<Rightarrow> env \<Rightarrow> timing_data \<Rightarrow> timing_app \<Rightarrow> timing_app" where
  "timing_rest k e data a =
     (if uiRaises e then a\<lparr> consecutiveErrors := consecutiveErrors a + 1 \<rparr>
      else a\<lparr> consecutiveErrors := 0 \<rparr>)"

definition timing_fetchData :: "env \<Rightarrow> timing_state \<Rightarrow> timing_state" where
  "timing_fetchData e st =
     fetchData timing_blocks timing_rest e 0 \<lparr> d_timing = None, d_load = None \<rparr> () st"

text \<open>In simulation the module renders synthetic data outside the \<open>try\<close> and returns.\<close>

definition timing_update :: "env \<Rightarrow> timing_state \<Rightarrow> timing_state" where
  "timing_update e st = (if isSimulating e then st else timing_fetchData e st)"

definition timing_tick :: "env \<Rightarrow> timing_state \<Rightarrow> timing_state" where
  "timing_tick e st =
     (let isConnected = (obdConnected e \<or> isSimulating e)
      in if \<not> dashVisible e \<or> \<not> isConnected \<or> \<not> isActive (self st) then st
         else if consecutiveErrors (self st) \<ge> maxErrors (self st) then
           (if consecutiveErrors (self st) = maxErrors (self st)
            then st\<lparr> self := (self st)\<lparr> consecutiveErrors := consecutiveErrors (self st) + 1 \<rparr> \<rparr>
            else st)
         else timing_update e st)"

definition timing_shutdown :: "timing_app \<Rightarrow> timing_app" where
  "timing_shutdown a = a\<lparr> isActive := False, consecutiveErrors := 0 \<rparr>"

definition timing_op :: "op \<Rightarrow> timing_state \<Rightarrow> timing_state" where
  "timing_op opn st =
     (case opn of
        Tick e \<Rightarrow> timing_tick e st
      | Settled r outcome e \<Rightarrow> resume timing_blocks timing_rest r outcome e st
      | Activate \<Rightarrow> st\<lparr> self := (self st)\<lparr> isActive := True \<rparr> \<rparr>
      | Deactivate \<Rightarrow> st\<lparr> self := (self st)\<lparr> isActive := False \<rparr> \<rparr>
      | Shutdown \<Rightarrow> st\<lparr> self := timing_shutdown (self st) \<rparr>)"

subsection \<open>Emissions\<close>

text \<open>The fuel-trim history of the analysis is left out.\<close>

record emissions_flags =
  stft1 :: bool
  ltft1 :: bool
  o2s1 :: bool
  o2s2 :: bool
  maf :: bool

record emissions_data =
  d_stft :: "jsval option"
  d_ltft :: "jsval option"
  d_o2s1 :: "jsval option"
  d_o2s2 :: "jsval option"
  d_maf :: "jsval option"

type_synonym emissions_app = "emissions_flags polling_module"

type_synonym emissions_state = "(emissions_app, emissions_data, unit) polling"

definition EmissionsApp :: emissions_app where
  "EmissionsApp = \<lparr> isActive = False,
       supported = \<lparr> stft1 = True, ltft1 = True, o2s1 = True, o2s2 = True, maf = True \<rparr>,
       consecutiveErrors = 0, maxErrors = 3 \<rparr>"

definition emissions_blocks :: "(emissions_app, emissions_data) block list" where
  "emissions_blocks =
     [\<lparr> flagSet = (\<lambda>a. stft1 (supported a)), pidOf = SHORT_FUEL_TRIM_1, echoOf = ''4106'',
        onReply = (\<lambda>v (a, d). (a, d\<lparr> d_stft := v \<rparr>)),
        onThrow = (\<lambda>a. a\<lparr> supported := (supported a)\<lparr> stft1 := False \<rparr> \<rparr>) \<rparr>,
      \<lparr> flagSet = (\<lambda>a. ltft1 (supported a)), pidOf = LONG_FUEL_TRIM_1, echoOf = ''4107'',
        onReply = (\<lambda>v (a, d). (a, d\<lparr> d_ltft := v \<rparr>)),
        onThrow = (\<lambda>a. a\<lparr> supported := (supported a)\<lparr> ltft1 := False \<rparr> \<rparr>) \<rparr>,
      \<lparr> flagSet = (\<lambda>a. o2s1 (supported a)), pidOf = O2_B1S1, echoOf = ''4114'',
        onReply = (\<lambda>v (a, d). (a, d\<lparr> d_o2s1 := v \<rparr>)),
        onThrow = (\<lambda>a. a\<lparr> supported := (supported a)\<lparr> o2s1 := False \<rparr> \<rparr>) \<rparr>,
      \<lparr> flagSet = (\<lambda>a. o2s2 (supported a)), pidOf = O2_B1S2, echoOf = ''4115'',
        onReply = (\<lambda>v (a, d). (a, d\<lparr> d_o2s2 := v \<rparr>)),
        onThrow = (\<lambda>a. a\<lparr> supported := (supported a)\<lparr> o2s2 := False \<rparr> \<rparr>) \<rparr>,
      \<lparr> flagSet = (\<lambda>a. maf (supported a)), pidOf = MAF_RATE, echoOf = ''4110'',
        onReply = (\<lambda>v (a, d). (a, d\<lparr> d_maf := v \<rparr>)),
        onThrow = (\<lambda>a. a\<lparr> supported := (supported a)\<lparr> maf := False \<rparr> \<rparr>) \<rparr>]"

text \<open>The rest of \<open>update\<close>: \<open>render\<close>, \<open>analyzeEmissions\<close> and the counter.\<close>

definition emissions_rest :: "unit \<Rightarrow> env \<Rightarrow> emissions_data \<Rightarrow> emissions_app \<Rightarrow> emissions_app" where
  "emissions_rest k e data a =
     (if uiRaises e then a\<lparr> consecutiveErrors := consecutiveErrors a + 1 \<rparr>
      else a\<lparr> consecutiveErrors := 0 \<rparr>)"

definition emissions_fetchData :: "env \<Rightarrow> emissions_state \<Rightarrow> emissions_state" where
  "emissions_fetchData e st =
     fetchData emissions_blocks emissions_rest e 0
       \<lparr> d_stft = None, d_ltft = None, d_o2s1 = None, d_o2s2 = None, d_maf = None \<rparr> () st"

definition emissions_update :: "env \<Rightarrow> emissions_state \<Rightarrow> emissions_state" where
  "emissions_update e st = (if isSimulating e then st else emissions_fetchData e st)"

definition emissions_tick :: "env \<Rightarrow> emissions_state \<Rightarrow> emissions_state" where
  "emissions_tick e st =
     (let isConnected = (obdConnected e \<or> isSimulating e)
      in if \<not> dashVisible e \<or> \<not> isConnected \<or> \<not> isActive (self st) then st
         else if consecutiveErrors (self st) \<ge> maxErrors (self st) then
           (if consecutiveErrors (self st) = maxErrors (self st)
            then st\<lparr> self := (self st)\<lparr> consecutiveErrors := consecutiveErrors (self st) + 1 \<rparr> \<rparr>
            else st)
         else emissions_update e st)"

definition emissions_shutdown :: "emissions_app \<Rightarrow> emissions_app" where
  "emissions_shutdown a = a\<lparr> isActive := False, consecutiveErrors := 0 \<rparr>"

definition emissions_op :: "op \<Rightarrow> emissions_state \<Rightarrow> emissions_state" where
  "emissions_op opn st =
     (case opn of
        Tick e \<Rightarrow> emissions_tick e st
      | Settled r outcome e \<Rightarrow> resume emissions_blocks emissions_rest r outcome e st
      | Activate \<Rightarrow> st\<lparr> self := (self st)\<lparr> isActive := True \<rparr> \<rparr>
      | Deactivate \<Rightarrow> st\<lparr> self := (self st)\<lparr> isActive := False \<rparr> \<rparr>
      | Shutdown \<Rightarrow> st\<lparr> self := emissions_shutdown (self st) \<rparr>)"

subsection \<open>Battery\<close>

record battery_app = "bool polling_module" +
  voltageHistory :: "jsval list"
  maxHistoryLength :: nat

text \<open>\<open>fetchVoltage\<close> is called by \<open>update\<close> and by \<open>quickPoll\<close>.\<close>

datatype origin = FromUpdate | FromQuickPoll

type_synonym battery_state = "(battery_app, jsval option, origin) polling"

definition BatteryApp :: battery_app where
  "BatteryApp = \<lparr> isActive = False, supported = True, consecutiveErrors = 0, maxErrors = 3,
                  voltageHistory = [], maxHistoryLength = 20 \<rparr>"

text \<open>\<open>push\<close>, then \<open>shift\<close> when the history has grown past its bound.\<close>

definition remember :: "jsval \<Rightarrow> battery_app \<Rightarrow> battery_app" where
  "remember v a =
     (let h = voltageHistory a @ [v]
      in a\<lparr> voltageHistory := (if length h > maxHistoryLength a then tl h else h) \<rparr>)"

text \<open>
  \<open>fetchVoltage\<close> is one block: it returns \<open>null\<close> when the flag is cleared, stores a voltage
  that is not \<open>null\<close> in the history and returns it, and clears the flag in its \<open>catch\<close>.
\<close>

definition battery_blocks :: "(battery_app, jsval option) block list" where
  "battery_blocks =
     [\<lparr> flagSet = (\<lambda>a. supported a), pidOf = BATTERY, echoOf = ''4142'',
        onReply = (\<lambda>voltage (a, d). (case voltage of Some v \<Rightarrow> (remember v a, voltage) | None \<Rightarrow> (a, voltage))),
        onThrow = (\<lambda>a. a\<lparr> supported := False \<rparr>) \<rparr>]"

text \<open>
  \<open>analyze\<close> computes \<open>this.voltageHistory.slice(0, -3).reduce((a, b) => a + b)\<close> whenever
  the history has at least three entries; \<open>reduce\<close> without an initial value raises a
  \<open>TypeError\<close> on the empty array, which is the case when the history has exactly three.
\<close>

definition analyzeRaises :: "battery_app \<Rightarrow> bool" where
  "analyzeRaises a \<longleftrightarrow> length (voltageHistory a) = 3"

text \<open>
  The rest of \<open>update\<close> after \<open>fetchVoltage\<close>: with a voltage the module renders and
  analyses, and resets the counter, or increments it in the \<open>catch\<close> when one of the two
  raised; without a voltage nothing happens. The rest of \<open>quickPoll\<close> only returns the
  voltage.
\<close>

definition battery_rest :: "origin \<Rightarrow> env \<Rightarrow> jsval option \<Rightarrow> battery_app \<Rightarrow> battery_app" where
  "battery_rest k e voltage a =
     (case k of
        FromQuickPoll \<Rightarrow> a
      | FromUpdate \<Rightarrow>
          if voltage \<noteq> None then
            (if uiRaises e \<or> analyzeRaises a then a\<lparr> consecutiveErrors := consecutiveErrors a + 1 \<rparr>
             else a\<lparr> consecutiveErrors := 0 \<rparr>)
          else a)"

definition fetchVoltage :: "env \<Rightarrow> origin \<Rightarrow> battery_state \<Rightarrow> battery_state" where
  "fetchVoltage e k st = fetchData battery_blocks battery_rest e 0 None k st"

definition battery_update :: "env \<Rightarrow> battery_state \<Rightarrow> battery_state" where
  "battery_update e st = (if isSimulating e then st else fetchVoltage e FromUpdate st)"

definition battery_tick :: "env \<Rightarrow> battery_state \<Rightarrow> battery_state" where
  "battery_tick e st =
     (let isConnected = (obdConnected e \<or> isSimulating e)
      in if \<not> dashVisible e \<or> \<not> isConnected \<or> \<not> isActive (self st) then st
         else if consecutiveErrors (self st) \<ge> maxErrors (self st) then
           (if consecutiveErrors (self st) = maxErrors (self st)
            then st\<lparr> self := (self st)\<lparr> consecutiveErrors := consecutiveErrors (self st) + 1 \<rparr> \<rparr>
            else st)
         else battery_update e st)"

text \<open>
  \<open>quickPoll\<close>, which the dashboard calls while its battery category is shown: a fetch
  without the checks of \<open>tick\<close> and without the counter.
\<close>

definition quickPoll :: "env \<Rightarrow> battery_state \<Rightarrow> battery_state" where
  "quickPoll e st = (if isSimulating e then st else fetchVoltage e FromQuickPoll st)"

definition battery_shutdown :: "battery_app \<Rightarrow> battery_app" where
  "battery_shutdown a = a\<lparr> isActive := False, consecutiveErrors := 0, voltageHistory := [] \<rparr>"

definition battery_op :: "op \<Rightarrow> battery_state \<Rightarrow> battery_state" where
  "battery_op opn st =
     (case opn of
        Tick e \<Rightarrow> battery_tick e st
      | Settled r outcome e \<Rightarrow> resume battery_blocks battery_rest r outcome e st
      | Activate \<Rightarrow> st\<lparr> self := (self st)\<lparr> isActive := True \<rparr> \<rparr>
      | Deactivate \<Rightarrow> st\<lparr> self := (self st)\<lparr> isActive := False \<rparr> \<rparr>
      | Shutdown \<Rightarrow> st\<lparr> self := battery_shutdown (self st) \<rparr>)"

text \<open>The battery module can also be asked for a quick poll.\<close>

datatype battery_call = Op op | QuickPoll env

definition battery_call :: "battery_call \<Rightarrow> battery_state \<Rightarrow> battery_state" where
  "battery_call c st = (case c of Op opn \<Rightarrow> battery_op opn st | QuickPoll e \<Rightarrow> quickPoll e st)"

section \<open>Command scheduler (\<open>OBDInterface\<close>, registered as \<open>window.OBDKernel\<close>)\<close>

text \<open>
  The kernel object runs on one event loop. Its asynchronous methods are cut at their
  \<open>await\<close>s: the state records where each activation of \<open>processQueue\<close> is suspended, and an
  event of the environment (a call of \<open>sendCommand\<close>, a timer, the end of a transport write,
  incoming bytes, a call of \<open>disconnect\<close>) runs the code up to the next \<open>await\<close>.

  A queue entry holds the command, its time-out and the \<open>resolve\<close>/\<open>reject\<close> pair of the
  promise that \<open>sendCommand\<close> returned; the promise is named by its number of creation
  \<open>hdl\<close>. \<open>settled\<close> lists the promises in the order in which \<open>resolve\<close> or \<open>reject\<close> was
  called on them, \<open>written\<close> the transport writes with the time of the call.
\<close>

record entry =
  cmd :: string
  hdl :: nat
  timeout :: int

datatype outcome = Resolved string | Rejected string

text \<open>
  Where an activation of \<open>processQueue\<close> waits: for the \<open>setTimeout\<close> of the spacing delay
  (with the time it is due), for the transport write, or inside \<open>waitForResponse\<close> (with
  its \<open>start\<close> and the time the next \<open>setInterval\<close> call-back is due).
\<close>

datatype activation =
    AwaitDelay entry int
  | AwaitWrite entry
  | AwaitResponse entry int int
  | Finished

text \<open>
  Where an activation of \<open>disconnect\<close> waits: for \<open>reader.cancel()\<close>, for \<open>writer.close()\<close>
  or for \<open>port.close()\<close>.
\<close>

datatype closing =
    AwaitCancel
  | AwaitWriterClose
  | AwaitPortClose
  | Closed

record kernel =
  port :: bool
  reader :: bool
  writer :: bool
  device :: bool
  characteristic :: bool
  connected :: bool
  buffer :: string
  commandQueue :: "entry list"
  isProcessingQueue :: bool
  lastCommandTime :: int
  minCommandDelay :: int
  now :: int
  loops :: "activation list"
  promises :: nat
  settled :: "(nat \<times> outcome) list"
  written :: "(int \<times> string) list"
  closers :: "closing list"

text \<open>The constructor, at clock reading \<open>t0\<close>. A transport handle is \<open>True\<close> when not \<open>null\<close>.\<close>

definition OBDInterface :: "int \<Rightarrow> kernel" where
  "OBDInterface t0 =
     \<lparr> port = False, reader = False, writer = False, device = False, characteristic = False,
       connected = False, buffer = [], commandQueue = [], isProcessingQueue = False,
       lastCommandTime = 0, minCommandDelay = 150,
       now = t0, loops = [], promises = 0, settled = [], written = [], closers = [] \<rparr>"

definition suspend :: "nat \<Rightarrow> activation \<Rightarrow> kernel \<Rightarrow> kernel" where
  "suspend i a s = s\<lparr> loops := (loops s)[i := a] \<rparr>"

definition activationAt :: "kernel \<Rightarrow> nat \<Rightarrow> activation" where
  "activationAt s i = (if i < length (loops s) then loops s ! i else Finished)"

definition settle :: "nat \<Rightarrow> outcome \<Rightarrow> kernel \<Rightarrow> kernel" where
  "settle h r s = s\<lparr> settled := settled s @ [(h, r)] \<rparr>"

text \<open>
  The \<open>try\<close> block up to its first \<open>await\<close>: the buffer is emptied and the command with a
  carriage return is written to the serial writer or else to the BLE characteristic; with
  neither, \<open>waitForResponse\<close> starts at once.
\<close>

definition transmit :: "nat \<Rightarrow> entry \<Rightarrow> kernel \<Rightarrow> kernel" where
  "transmit i e s0 =
     (let s = s0\<lparr> buffer := [] \<rparr>;
          dataToSend = cmd e @ [CHR 0x0D]
      in if writer s then suspend i (AwaitWrite e) (s\<lparr> written := written s @ [(now s, dataToSend)] \<rparr>)
         else if characteristic s then suspend i (AwaitWrite e) (s\<lparr> written := written s @ [(now s, dataToSend)] \<rparr>)
         else suspend i (AwaitResponse e (now s) (now s + 50)) s)"

text \<open>
  The head of the \<open>while\<close> loop of activation \<open>i\<close>: leave when the queue is empty, else
  \<open>shift\<close> the first entry and wait for the rest of the minimum delay, if any.
\<close>

definition drain :: "nat \<Rightarrow> kernel \<Rightarrow> kernel" where
  "drain i s =
     (case commandQueue s of
        [] \<Rightarrow> suspend i Finished (s\<lparr> isProcessingQueue := False \<rparr>)
      | e # rest \<Rightarrow>
          let s1 = s\<lparr> commandQueue := rest \<rparr>;
              wait = max 0 (minCommandDelay s1 - (now s1 - lastCommandTime s1))
          in if wait > 0 then suspend i (AwaitDelay e (now s1 + wait)) s1 else transmit i e s1)"

definition processQueue :: "kernel \<Rightarrow> kernel" where
  "processQueue s =
     (if isProcessingQueue s \<or> commandQueue s = [] then s
      else drain (length (loops s)) (s\<lparr> isProcessingQueue := True, loops := loops s @ [Finished] \<rparr>))"

definition sendCommand :: "string \<Rightarrow> int \<Rightarrow> kernel \<Rightarrow> kernel" where
  "sendCommand c t s =
     processQueue (s\<lparr> commandQueue := commandQueue s @ [\<lparr> cmd = c, hdl = promises s, timeout = t \<rparr>],
                      promises := promises s + 1 \<rparr>)"

text \<open>\<open>String.prototype.trim\<close> on ASCII.\<close>

definition trim :: "string \<Rightarrow> string" where
  "trim s = rev (dropWhile isSpace (rev (dropWhile isSpace s)))"

text \<open>
  One call-back of the 50 ms interval of \<open>waitForResponse\<close>, followed, when it settles the
  inner promise, by the rest of the loop body: on a prompt the time of completion is stored
  and the caller's promise resolved; on a time-out the \<open>catch\<close> rejects it. Either way the
  loop goes on to its head.
\<close>

definition check :: "nat \<Rightarrow> entry \<Rightarrow> int \<Rightarrow> kernel \<Rightarrow> kernel" where
  "check i e start s =
     (if includesStr (buffer s) ''>'' then
        drain i (settle (hdl e) (Resolved (trim (removeFirst ''>'' (buffer s)))) (s\<lparr> lastCommandTime := now s \<rparr>))
      else if now s - start > timeout e then
        drain i (settle (hdl e) (Rejected ''Timeout waiting for response'') s)
      else suspend i (AwaitResponse e start (now s + 50)) s)"

text \<open>
  \<open>disconnect\<close>. Its first three assignments are synchronous. Each transport handle that
  is not \<open>null\<close> is then closed with an \<open>await\<close> and set to \<open>null\<close> only when the close has
  ended (a close that fails is caught and goes on the same way); the BLE handles are
  dropped at the end without an \<open>await\<close>. The stages are written last first.
\<close>

definition closerAt :: "kernel \<Rightarrow> nat \<Rightarrow> closing" where
  "closerAt s i = (if i < length (closers s) then closers s ! i else Closed)"

definition park :: "nat \<Rightarrow> closing \<Rightarrow> kernel \<Rightarrow> kernel" where
  "park i c s = s\<lparr> closers := (closers s)[i := c] \<rparr>"

definition dropBLE :: "nat \<Rightarrow> kernel \<Rightarrow> kernel" where
  "dropBLE i s = park i Closed (s\<lparr> device := False, characteristic := False \<rparr>)"

definition closePort :: "nat \<Rightarrow> kernel \<Rightarrow> kernel" where
  "closePort i s = (if port s then park i AwaitPortClose s else dropBLE i s)"

definition closeWriter :: "nat \<Rightarrow> kernel \<Rightarrow> kernel" where
  "closeWriter i s = (if writer s then park i AwaitWriterClose s else closePort i s)"

definition cancelReader :: "nat \<Rightarrow> kernel \<Rightarrow> kernel" where
  "cancelReader i s = (if reader s then park i AwaitCancel s else closeWriter i s)"

definition disconnect :: "kernel \<Rightarrow> kernel" where
  "disconnect s =
     cancelReader (length (closers s))
       (s\<lparr> connected := False, commandQueue := [], isProcessingQueue := False,
           closers := closers s @ [Closed] \<rparr>)"

text \<open>The rest of activation \<open>i\<close> of \<open>disconnect\<close> once the close it awaits has ended.\<close>

definition closeDone :: "nat \<Rightarrow> kernel \<Rightarrow> kernel" where
  "closeDone i s =
     (case closerAt s i of
        AwaitCancel \<Rightarrow> closeWriter i (s\<lparr> reader := False \<rparr>)
      | AwaitWriterClose \<Rightarrow> closePort i (s\<lparr> writer := False \<rparr>)
      | AwaitPortClose \<Rightarrow> dropBLE i (s\<lparr> port := False \<rparr>)
      | Closed \<Rightarrow> s)"

text \<open>
  The events. \<open>OpenSerial\<close> and \<open>OpenBLE\<close> are the assignments of \<open>connectSerial\<close> and
  \<open>connectBLE\<close> once the transport is open; \<open>Elapse\<close> advances the clock; \<open>DelayOver\<close>,
  \<open>WriteDone\<close> (with the error message if the write failed) and \<open>Poll\<close> resume the
  activation of that number; \<open>Incoming\<close> is \<open>handleIncomingData\<close>; \<open>Disconnect\<close> is a call
  of \<open>disconnect\<close> and \<open>CloseDone\<close> the end of the close that the activation of
  \<open>disconnect\<close> of that number awaits. A timer event before its time is due does nothing.
\<close>

datatype event =
    OpenSerial
  | OpenBLE
  | SendCommand string int
  | Elapse nat
  | DelayOver nat
  | WriteDone nat "string option"
  | Incoming string
  | Poll nat
  | Disconnect
  | CloseDone nat

definition step :: "event \<Rightarrow> kernel \<Rightarrow> kernel" where
  "step ev s =
     (case ev of
        OpenSerial \<Rightarrow> s\<lparr> port := True, reader := True, writer := True, connected := True \<rparr>
      | OpenBLE \<Rightarrow> s\<lparr> device := True, characteristic := True, connected := True \<rparr>
      | SendCommand c t \<Rightarrow> sendCommand c t s
      | Elapse d \<Rightarrow> s\<lparr> now := now s + int d \<rparr>
      | DelayOver i \<Rightarrow>
          (case activationAt s i of
             AwaitDelay e due \<Rightarrow> if now s \<ge> due then transmit i e s else s
           | _ \<Rightarrow> s)
      | WriteDone i err \<Rightarrow>
          (case activationAt s i of
             AwaitWrite e \<Rightarrow>
               (case err of
                  None \<Rightarrow> suspend i (AwaitResponse e (now s) (now s + 50)) s
                | Some msg \<Rightarrow> drain i (settle (hdl e) (Rejected msg) s))
           | _ \<Rightarrow> s)
      | Incoming d \<Rightarrow> s\<lparr> buffer := buffer s @ d \<rparr>
      | Poll i \<Rightarrow>
          (case activationAt s i of
             AwaitResponse e start due \<Rightarrow> if now s \<ge> due then check i e start s else s
           | _ \<Rightarrow> s)
      | Disconnect \<Rightarrow> disconnect s
      | CloseDone i \<Rightarrow> closeDone i s)"

definition run :: "event list \<Rightarrow> kernel \<Rightarrow> kernel" where
  "run evs s = fold step evs s"

text \<open>The commands that an activation holds between \<open>shift\<close> and the settling of the promise.\<close>

fun held :: "activation \<Rightarrow> entry list" where
  "held (AwaitDelay e due) = [e]"
| "held (AwaitWrite e) = [e]"
| "held (AwaitResponse e start due) = [e]"
| "held Finished = []"

definition inFlight :: "kernel \<Rightarrow> entry list" where
  "inFlight s = concat (map held (loops s))"

section \<open>The kernel with the timing module as its client\<close>

text \<open>
  The page with the kernel as \<open>window.obd\<close> and the timing module polling it. A call
  \<open>window.obd.sendCommand(code)\<close> of the module is a \<open>sendCommand\<close> of the kernel with the
  default time-out of 3000 ms; \<open>owners\<close> pairs the promise with the request of the module.
  When an event settles a promise of the module, the update that awaits it goes on in the
  same turn of the event loop, after the kernel code has reached its next \<open>await\<close>.
\<close>

record system =
  kern :: kernel
  client :: timing_state
  owners :: "(nat \<times> nat) list"

definition boot :: "int \<Rightarrow> system" where
  "boot t0 = \<lparr> kern = OBDInterface t0, client = loaded TimingApp, owners = [] \<rparr>"

text \<open>What the module sees: the page as given, with the kernel as \<open>window.obd\<close>.\<close>

definition page :: "env \<Rightarrow> system \<Rightarrow> env" where
  "page e s = e\<lparr> obd := Adapter (connected (kern s)) \<rparr>"

definition submit :: "string \<Rightarrow> system \<Rightarrow> system" where
  "submit c s =
     s\<lparr> owners := owners s @ [(promises (kern s), length (owners s))],
        kern := sendCommand c 3000 (kern s) \<rparr>"

text \<open>An operation of the module, with the requests it makes handed to the kernel.\<close>

definition toClient :: "op \<Rightarrow> system \<Rightarrow> system" where
  "toClient opn s =
     (let m = timing_op opn (client s)
      in fold submit (newCalls (client s) m) (s\<lparr> client := m \<rparr>))"

fun answer :: "outcome \<Rightarrow> string option" where
  "answer (Resolved raw) = Some raw"
| "answer (Rejected msg) = None"

definition deliver :: "env \<Rightarrow> nat \<times> outcome \<Rightarrow> system \<Rightarrow> system" where
  "deliver e p s =
     (case map_of (owners s) (fst p) of
        None \<Rightarrow> s
      | Some r \<Rightarrow> toClient (Settled r (answer (snd p)) (page e s)) s)"

text \<open>
  The events of the page: a call of the module (a tick, \<open>activate\<close>, \<open>deactivate\<close>,
  \<open>shutdown\<close>), and an event of the kernel, with what the page shows when the module code
  that it wakes up runs. The settling of a request is not an event of its own here: it
  follows from the kernel.
\<close>

datatype page_event = Client op | Hardware env event

definition page_step :: "page_event \<Rightarrow> system \<Rightarrow> system" where
  "page_step ev s =
     (case ev of
        Client opn \<Rightarrow>
          (case opn of
             Tick e \<Rightarrow> toClient (Tick (page e s)) s
           | Settled r outcome e \<Rightarrow> s
           | _ \<Rightarrow> toClient opn s)
      | Hardware e kev \<Rightarrow>
          (let k = step kev (kern s)
           in fold (deliver e) (drop (length (settled (kern s))) (settled k)) (s\<lparr> kern := k \<rparr>)))"

definition page_run :: "page_event list \<Rightarrow> system \<Rightarrow> system" where
  "page_run evs s = fold page_step evs s"

section \<open>Reference definitions and scenarios\<close>

text \<open>
  The signed 16-bit reading in the spec's words: the raw value \<open>hi * 256 + lo\<close>, minus 65536
  when it is above 32767.
\<close>

definition signed16 :: "int \<Rightarrow> int \<Rightarrow> int" where
  "signed16 hi lo = (let raw = hi * 256 + lo in if raw > 32767 then raw - 65536 else raw)"

definition byte :: "int \<Rightarrow> jsval" where
  "byte k = Num (of_int k)"

text \<open>
  A test-table response with one record whose maximum (5) is below its minimum (10), the
  current value being 7; and the row decoded from it.
\<close>

definition reversedLimitsFrame :: string where
  "reversedLimitsFrame = ''7E8 46 00 01 00 00 0A 00 05 00 07''"

definition reversedLimitsRow :: test_result where
  "reversedLimitsRow = hd (parseTestResults (Some reversedLimitsFrame) [])"

text \<open>
  Ordinary least squares in the spec's words, over the pairs (position, value): the sum of
  the products of the deviations from the two means, over the sum of the squared deviations
  of the positions.
\<close>

definition olsMeanX :: "rat list \<Rightarrow> rat" where
  "olsMeanX ys = (\<Sum>i<length ys. of_nat i) / of_nat (length ys)"

definition olsMeanY :: "rat list \<Rightarrow> rat" where
  "olsMeanY ys = (\<Sum>i<length ys. ys ! i) / of_nat (length ys)"

definition olsSxx :: "rat list \<Rightarrow> rat" where
  "olsSxx ys = (\<Sum>i<length ys. (of_nat i - olsMeanX ys) * (of_nat i - olsMeanX ys))"

definition olsSxy :: "rat list \<Rightarrow> rat" where
  "olsSxy ys = (\<Sum>i<length ys. (of_nat i - olsMeanX ys) * (ys ! i - olsMeanY ys))"

definition olsSlope :: "rat list \<Rightarrow> rat" where
  "olsSlope ys = olsSxy ys / olsSxx ys"

text \<open>The spec's series of five declining voltages, one snapshot a minute.\<close>

definition decliningVoltage :: "point list" where
  "decliningVoltage =
     [\<lparr> timestamp = 0, pvalue = 12.6 \<rparr>, \<lparr> timestamp = 60000, pvalue = 12.5 \<rparr>,
      \<lparr> timestamp = 120000, pvalue = 12.4 \<rparr>, \<lparr> timestamp = 180000, pvalue = 12.3 \<rparr>,
      \<lparr> timestamp = 240000, pvalue = 12.2 \<rparr>]"

text \<open>
  Pages for the examples: the dashboard is shown and the kernel is connected; in the second
  the rendering raises.
\<close>

definition dash :: env where
  "dash = \<lparr> dashVisible = True, engineViewVisible = True, obd = Adapter True, isSimulating = False,
            uiRaises = False \<rparr>"

definition raising :: env where
  "raising = dash\<lparr> uiRaises := True \<rparr>"

text \<open>
  Three updates of the timing module in a row, each with both fetches failing: the adapter
  answers \<open>NO DATA\<close> to every request, which decodes to \<open>null\<close>.
\<close>

definition threeFailedFetches :: "op list" where
  "threeFailedFetches =
     [Activate,
      Tick dash, Settled 0 (Some ''NO DATA'') dash, Settled 1 (Some ''NO DATA'') dash,
      Tick dash, Settled 2 (Some ''NO DATA'') dash, Settled 3 (Some ''NO DATA'') dash,
      Tick dash, Settled 4 (Some ''NO DATA'') dash, Settled 5 (Some ''NO DATA'') dash]"







text \<open>Each module after it was activated and every request of its first update was rejected.\<close>

definition allRejected :: "nat \<Rightarrow> op list" where
  "allRejected n = Activate # Tick dash # map (\<lambda>r. Settled r None dash) [0..<n]"

definition rejectedTiming :: timing_state where
  "rejectedTiming = session timing_op (allRejected 2) (loaded TimingApp)"

definition rejectedEmissions :: emissions_state where
  "rejectedEmissions = session emissions_op (allRejected 5) (loaded EmissionsApp)"

definition rejectedEngine :: engine_state where
  "rejectedEngine = session engine_op (allRejected 6) (loaded EngineApp)"

definition rejectedBattery :: battery_state where
  "rejectedBattery = session battery_op (allRejected 1) (loaded BatteryApp)"


definition restartOps :: "op list" where
  "restartOps = [Tick dash, Shutdown, Activate, Tick dash]"

definition restartCalls :: "battery_call list" where
  "restartCalls = [Op (Tick dash), QuickPoll dash, Op Shutdown, Op Activate, QuickPoll dash, Op (Tick dash)]"

text \<open>
  Ticks of the timing module that overlap: the adapter is silent, so the first request for
  the timing advance is in flight for its time-out of 3000 ms while the ticks of the 500 ms
  timer go on and queue two more. When the first is rejected the module clears the flag;
  the kernel goes on to the second, and after the second to the third.
\<close>

definition overlap :: "page_event list" where
  "overlap =
     [Hardware dash OpenSerial, Client Activate,
      Client (Tick dash), Hardware dash (WriteDone 0 None),
      Hardware dash (Elapse 500), Client (Tick dash),
      Hardware dash (Elapse 500), Client (Tick dash),
      Hardware dash (Elapse 2050), Hardware dash (Poll 0)]"

definition flagCleared :: system where
  "flagCleared = page_run overlap (boot 1000000)"

definition nextTimeout :: "page_event list" where
  "nextTimeout = [Hardware dash (WriteDone 0 None), Hardware dash (Elapse 3050), Hardware dash (Poll 0)]"

section \<open>Scheduler invariant\<close>

text \<open>
  Between events the scheduler is in one of two shapes. \<open>quiet\<close>: no activation of
  \<open>processQueue\<close> is suspended, the queue is empty and every promise created so far has been
  settled, in the order of creation. \<open>busy\<close>: exactly one activation, number \<open>i\<close>, is
  suspended and holds the entry \<open>e\<close>; the promises settled so far, then that of \<open>e\<close>, then
  those of the queue are the promises in the order of creation. \<open>atHead\<close> is the shape in
  the middle of a step, when activation \<open>i\<close> has settled its entry and is about to test the
  queue.
\<close>

definition quiet :: "kernel \<Rightarrow> bool" where
  "quiet s \<longleftrightarrow>
     \<not> isProcessingQueue s \<and> commandQueue s = [] \<and> (\<forall>j<length (loops s). loops s ! j = Finished)
     \<and> map fst (settled s) = [0..<promises s]"

definition busy :: "kernel \<Rightarrow> nat \<Rightarrow> entry \<Rightarrow> bool" where
  "busy s i e \<longleftrightarrow>
     isProcessingQueue s \<and> i < length (loops s) \<and> held (loops s ! i) = [e]
     \<and> (\<forall>j<length (loops s). j \<noteq> i \<longrightarrow> loops s ! j = Finished)
     \<and> map fst (settled s) @ hdl e # map hdl (commandQueue s) = [0..<promises s]"

definition atHead :: "kernel \<Rightarrow> nat \<Rightarrow> bool" where
  "atHead s i \<longleftrightarrow>
     isProcessingQueue s \<and> i < length (loops s)
     \<and> (\<forall>j<length (loops s). j \<noteq> i \<longrightarrow> loops s ! j = Finished)
     \<and> map fst (settled s) @ map hdl (commandQueue s) = [0..<promises s]"

definition fifo :: "kernel \<Rightarrow> bool" where
  "fifo s \<longleftrightarrow> quiet s \<or> (\<exists>i e. busy s i e)"

section \<open>Scheduler scenarios\<close>



text \<open>
  A burst with short time-outs against an adapter that has stopped answering: after a
  reset command that resolved, two commands with a time-out of 10 ms are submitted together
  one second later. The first is written at once and rejected by the first 50 ms poll, upon
  which the loop takes the second.
\<close>

definition shortTimeoutBurst :: "event list" where
  "shortTimeoutBurst =
     [OpenSerial, SendCommand ''ATZ'' 3000, WriteDone 0 None, Incoming ''ELM327 v1.5 >'',
      Elapse 50, Poll 0, Elapse 1000,
      SendCommand ''0100'' 10, SendCommand ''010C'' 10, WriteDone 1 None, Elapse 50, Poll 1]"









section \<open>Write spacing\<close>

text \<open>
  \<open>spaced d ts\<close>: consecutive times of the list are at least \<open>d\<close> apart. \<open>paced\<close> is what
  the drain loop maintains as long as no promise has been rejected: no write lies in the
  future, the writes are 150 ms apart, and whenever the loop is idle or waits for the
  spacing delay, every write made so far is at or before \<open>lastCommandTime\<close> and the delay
  ends no earlier than 150 ms after it.
\<close>

fun spaced :: "int \<Rightarrow> int list \<Rightarrow> bool" where
  "spaced d [] = True"
| "spaced d [x] = True"
| "spaced d (x # y # rest) = (x + d \<le> y \<and> spaced d (y # rest))"

fun isResolved :: "outcome \<Rightarrow> bool" where
  "isResolved (Resolved r) = True"
| "isResolved (Rejected r) = False"

definition writeTimes :: "kernel \<Rightarrow> int list" where
  "writeTimes s = map fst (written s)"

definition paced :: "kernel \<Rightarrow> bool" where
  "paced s \<longleftrightarrow>
     minCommandDelay s = 150
     \<and> (\<forall>w\<in>set (writeTimes s). w \<le> now s)
     \<and> spaced 150 (writeTimes s)
     \<and> ((\<forall>j<length (loops s). loops s ! j = Finished) \<longrightarrow>
          (\<forall>w\<in>set (writeTimes s). w \<le> lastCommandTime s))
     \<and> (\<forall>j e due. j < length (loops s) \<and> loops s ! j = AwaitDelay e due \<longrightarrow>
          (\<forall>w\<in>set (writeTimes s). w \<le> lastCommandTime s) \<and> lastCommandTime s + 150 \<le> due)"

section \<open>Decoder: worked examples and the null frame\<close>

lemmas pid_defs = RPM_def SPEED_def COOLANT_def THROTTLE_def FUEL_LEVEL_def BATTERY_def
  ENGINE_LOAD_def TIMING_ADVANCE_def INTAKE_TEMP_def MAF_RATE_def SHORT_FUEL_TRIM_1_def
  LONG_FUEL_TRIM_1_def O2_B1S1_def O2_B1S2_def

lemmas js_defs = idx_def jadd_def jsub_def jmul_def jdiv_def arith_def

text \<open>
  Claim C4, as stated: the engine-speed decode of bytes \<open>[0x1A, 0xF8]\<close> is 1798.0, the
  coolant decode of \<open>[0x7D]\<close> is 85, the control-module-voltage decode of \<open>[0x37, 0x42]\<close>
  is 14.146 and the timing-advance decode of \<open>[0x80]\<close> is 0.0. The four values do not hold
  together: \<open>(0x1A * 256 + 0xF8) / 4\<close> is 1726.
\<close>

theorem rpm_example_is_not_1798:
  "\<not> (parse RPM (Some [Num 0x1A, Num 0xF8]) = Some (Num 1798)
      \<and> parse COOLANT (Some [Num 0x7D]) = Some (Num 85)
      \<and> parse BATTERY (Some [Num 0x37, Num 0x42]) = Some (Num 14.146)
      \<and> parse TIMING_ADVANCE (Some [Num 0x80]) = Some (Num 0))"
  by (simp add: RPM_def js_defs)

text \<open>
  Claim C4, amended: with the scaling rules engine speed = (B0 * 256 + B1) / 4, coolant =
  B0 - 40, voltage = (B0 * 256 + B1) / 1000 and timing = (B0 - 128) / 2, the engine-speed
  decode of \<open>[0x1A, 0xF8]\<close> is 1726, and the other three examples are as the spec gives
  them: 85, 14.146 and 0.
\<close>

theorem decoder_examples:
  "parse RPM (Some [Num 0x1A, Num 0xF8]) = Some (Num 1726)
   \<and> parse COOLANT (Some [Num 0x7D]) = Some (Num 85)
   \<and> parse BATTERY (Some [Num 0x37, Num 0x42]) = Some (Num 14.146)
   \<and> parse TIMING_ADVANCE (Some [Num 0x80]) = Some (Num 0)"
  by (simp add: pid_defs js_defs)

lemma parseOBDResponse_error_marker:
  "includesStr h ''NO DATA'' \<or> includesStr h ''?'' \<or> includesStr h ''ERROR''
     \<Longrightarrow> parseOBDResponse (Some h) mode = None"
  by (auto simp: parseOBDResponse_def)

lemma parseOBDResponse_absent:
  "parseOBDResponse None mode = None" "parseOBDResponse (Some []) mode = None"
  by (simp_all add: parseOBDResponse_def)

text \<open>
  Claim C10: every descriptor of the PIDS table maps the null byte sequence to null, without
  raising; so a frame for which \<open>parseOBDResponse\<close> returns null decodes to null.
\<close>

theorem parse_null_is_null:
  "p \<in> set PIDS \<Longrightarrow>
     parse p None = None
     \<and> (parseOBDResponse hex mode = None \<longrightarrow> parse p (parseOBDResponse hex mode) = None)"
  by (auto simp: PIDS_def pid_defs)

text \<open>Witness for C10: the engine-speed descriptor on a \<open>NO DATA\<close> frame.\<close>

theorem parse_null_is_null_witness:
  "RPM \<in> set PIDS \<and> parse RPM None = None
   \<and> parseOBDResponse (Some ''NO DATA'') ''410C'' = None
   \<and> parse RPM (parseOBDResponse (Some ''NO DATA'') ''410C'') = None"
proof -
  have m: "RPM \<in> set PIDS" by (simp add: PIDS_def)
  have n: "parseOBDResponse (Some ''NO DATA'') ''410C'' = None"
    by (rule parseOBDResponse_error_marker) simp
  from parse_null_is_null [OF m, of "Some ''NO DATA''" "''410C''"] m n show ?thesis by simp
qed

section \<open>Readiness decode\<close>

lemma toInt32_byte: "0 \<le> k \<Longrightarrow> k < 256 \<Longrightarrow> toInt32 (byte k) = k"
  by (simp add: toInt32_def byte_def truncInt_def signed_take_bit_int_eq_self)

lemma band_byte:
  assumes "0 \<le> k" "k < 256" "0 \<le> m" "m < 256"
  shows "band (byte k) m = k AND m"
  using assms by (simp add: band_def toInt32_byte signed_take_bit_int_eq_self)

lemma and_bit_masks:
  fixes k :: int
  shows "k AND 1 = 0 \<longleftrightarrow> \<not> bit k 0" "k AND 2 = 0 \<longleftrightarrow> \<not> bit k 1" "k AND 4 = 0 \<longleftrightarrow> \<not> bit k 2"
    "k AND 8 = 0 \<longleftrightarrow> \<not> bit k 3" "k AND 16 = 0 \<longleftrightarrow> \<not> bit k 4" "k AND 32 = 0 \<longleftrightarrow> \<not> bit k 5"
    "k AND 64 = 0 \<longleftrightarrow> \<not> bit k 6" "k AND 128 = 0 \<longleftrightarrow> \<not> bit k 7"
  using and_exp_eq_0_iff_not_bit [of k 0] and_exp_eq_0_iff_not_bit [of k 1] and_exp_eq_0_iff_not_bit [of k 2]
    and_exp_eq_0_iff_not_bit [of k 3] and_exp_eq_0_iff_not_bit [of k 4] and_exp_eq_0_iff_not_bit [of k 5]
    and_exp_eq_0_iff_not_bit [of k 6] and_exp_eq_0_iff_not_bit [of k 7]
  by simp_all

lemma and_127: "(k :: int) AND 127 = take_bit 7 k"
  by (simp add: take_bit_eq_mask mask_eq_exp_minus_1)

text \<open>
  What \<open>parseStatus\<close> does decode, for status bytes A, B, C: the MIL is bit 7 of A, the
  count is bits 0 to 6 of A, the three continuous monitors are supported and complete when
  bits 4, 5, 6 of C are clear, and seven non-continuous monitors follow bits 0, 1, 2, 3, 5,
  6, 7 of B and C.
\<close>

lemma parseStatus_decodes:
  assumes "0 \<le> a" "a < 256" "0 \<le> b" "b < 256" "0 \<le> c" "c < 256"
  shows "milStatus (parseStatus [byte a, byte b, byte c, d] app) = bit a 7"
    and "dtcCount (parseStatus [byte a, byte b, byte c, d] app) = take_bit 7 a"
    and "misfire (monitors (parseStatus [byte a, byte b, byte c, d] app)) = \<lparr> monitor.supported = True, complete = (\<not> bit c 4) \<rparr>"
    and "fuelSystem (monitors (parseStatus [byte a, byte b, byte c, d] app)) = \<lparr> monitor.supported = True, complete = (\<not> bit c 5) \<rparr>"
    and "components (monitors (parseStatus [byte a, byte b, byte c, d] app)) = \<lparr> monitor.supported = True, complete = (\<not> bit c 6) \<rparr>"
    and "catalyst (monitors (parseStatus [byte a, byte b, byte c, d] app)) = \<lparr> monitor.supported = bit b 0, complete = (bit b 0 \<and> \<not> bit c 0) \<rparr>"
    and "heatedCatalyst (monitors (parseStatus [byte a, byte b, byte c, d] app)) = \<lparr> monitor.supported = bit b 1, complete = (bit b 1 \<and> \<not> bit c 1) \<rparr>"
    and "evapSystem (monitors (parseStatus [byte a, byte b, byte c, d] app)) = \<lparr> monitor.supported = bit b 2, complete = (bit b 2 \<and> \<not> bit c 2) \<rparr>"
    and "secondaryAir (monitors (parseStatus [byte a, byte b, byte c, d] app)) = \<lparr> monitor.supported = bit b 3, complete = (bit b 3 \<and> \<not> bit c 3) \<rparr>"
    and "oxygenSensor (monitors (parseStatus [byte a, byte b, byte c, d] app)) = \<lparr> monitor.supported = bit b 5, complete = (bit b 5 \<and> \<not> bit c 5) \<rparr>"
    and "oxygenSensorHeater (monitors (parseStatus [byte a, byte b, byte c, d] app)) = \<lparr> monitor.supported = bit b 6, complete = (bit b 6 \<and> \<not> bit c 6) \<rparr>"
    and "egrSystem (monitors (parseStatus [byte a, byte b, byte c, d] app)) = \<lparr> monitor.supported = bit b 7, complete = (bit b 7 \<and> \<not> bit c 7) \<rparr>"
    and "acRefrigerant (monitors (parseStatus [byte a, byte b, byte c, d] app)) = acRefrigerant (monitors app)"
  using assms
  by (simp_all add: parseStatus_def Let_def idx_def band_byte and_bit_masks and_127)

lemma parseStatus_keeps_acRefrigerant:
  "acRefrigerant (monitors (parseStatus bytes app)) = acRefrigerant (monitors app)"
  by (simp add: parseStatus_def Let_def)

text \<open>
  Claim C6 asks for eight non-continuous monitors, each supported exactly when its bit in B
  is set. The module declares eight (\<open>acRefrigerant\<close> among them, in the place of bit 4) but
  \<open>parseStatus\<close> assigns seven. On the status bytes \<open>83 10 00 00\<close> the MIL is on and the
  count is 3, as claimed, and bit 4 of B is set, yet \<open>acRefrigerant\<close> is left unsupported
  and incomplete.
\<close>

theorem acRefrigerant_left_undecoded:
  "milStatus (parseStatus [Num 0x83, Num 0x10, Num 0x00, Num 0x00] ReadinessApp) = True
   \<and> dtcCount (parseStatus [Num 0x83, Num 0x10, Num 0x00, Num 0x00] ReadinessApp) = 3
   \<and> band (Num 0x10) 0x10 \<noteq> 0
   \<and> acRefrigerant (monitors (parseStatus [Num 0x83, Num 0x10, Num 0x00, Num 0x00] ReadinessApp))
       = \<lparr> monitor.supported = False, complete = False \<rparr>"
  by (simp add: parseStatus_def ReadinessApp_def unset_def band_def toInt32_def truncInt_def idx_def Let_def)


section \<open>Test-table decode\<close>

lemma parseSignedInt16_bytes:
  assumes "0 \<le> h" "h < 256" "0 \<le> l" "l < 256"
  shows "parseSignedInt16 (byte h) (byte l) = signed16 h l"
proof -
  have s: "shl (byte h) 8 = h * 256"
    using assms by (simp add: shl_def toInt32_byte push_bit_eq_mult signed_take_bit_int_eq_self)
  have t: "take_bit 8 l = l"
    using assms by (simp add: take_bit_int_eq_self)
  have "bor (h * 256) (byte l) = h * 256 OR l"
    using assms by (simp add: bor_def toInt32_byte signed_take_bit_int_eq_self)
  also have "\<dots> = concat_bit 8 l h"
    by (simp add: concat_bit_def t push_bit_eq_mult or.commute)
  also have "\<dots> = h * 256 + l"
    by (simp add: concat_bit_eq t push_bit_eq_mult)
  finally show ?thesis
    by (simp add: parseSignedInt16_def signed16_def s Let_def)
qed

declare testLoop.simps [simp del]

lemma testLoop_step:
  "int i < int (length bytes) - 6 \<Longrightarrow>
     testLoop bytes i acc = testLoop bytes (i + 8) (acc @ [testRecord bytes i])"
  by (subst testLoop.simps) simp

lemma testLoop_split:
  "acc = a @ b \<Longrightarrow> testLoop bytes i acc = a @ testLoop bytes i b"
proof (induction bytes i acc arbitrary: a b rule: testLoop.induct)
  case (1 bytes i results)
  show ?case
  proof (cases "int i < int (length bytes) - 6")
    case True
    have "testLoop bytes i results = testLoop bytes (i + 8) (results @ [testRecord bytes i])"
      using True by (rule testLoop_step)
    also have "\<dots> = a @ testLoop bytes (i + 8) (b @ [testRecord bytes i])"
      using "1.prems" by (intro "1.IH" [OF True]) simp
    also have "\<dots> = a @ testLoop bytes i b"
      using True by (simp add: testLoop_step)
    finally show ?thesis .
  next
    case False
    then show ?thesis using "1.prems" by (simp add: testLoop.simps)
  qed
qed

lemma testLoop_nth:
  "8 * j + 7 < length bytes \<Longrightarrow> m \<le> j \<Longrightarrow> d = j - m \<Longrightarrow>
     d < length (testLoop bytes (8 * m) []) \<and> testLoop bytes (8 * m) [] ! d = testRecord bytes (8 * j)"
proof (induction d arbitrary: m)
  case 0
  then have mj: "m = j" by simp
  have c: "int (8 * m) < int (length bytes) - 6" using 0 by simp
  have "testLoop bytes (8 * m) [] = [testRecord bytes (8 * m)] @ testLoop bytes (8 * m + 8) []"
    using testLoop_step [OF c, of "[]"] testLoop_split [of "[testRecord bytes (8 * m)]" "[testRecord bytes (8 * m)]" "[]"]
    by simp
  then show ?case using mj by simp
next
  case (Suc d)
  have c: "int (8 * m) < int (length bytes) - 6" using Suc.prems by simp
  have e: "testLoop bytes (8 * m) [] = [testRecord bytes (8 * m)] @ testLoop bytes (8 * m + 8) []"
    using testLoop_step [OF c, of "[]"] testLoop_split [of "[testRecord bytes (8 * m)]" "[testRecord bytes (8 * m)]" "[]"]
    by simp
  have "d < length (testLoop bytes (8 * Suc m) []) \<and> testLoop bytes (8 * Suc m) [] ! d = testRecord bytes (8 * j)"
    using Suc.prems by (intro Suc.IH) auto
  moreover have "8 * Suc m = 8 * m + 8" by simp
  ultimately have "d < length (testLoop bytes (8 * m + 8) []) \<and> testLoop bytes (8 * m + 8) [] ! d = testRecord bytes (8 * j)"
    by metis
  then show ?case by (simp add: e)
qed

lemma idx_bytes: "i < length ks \<Longrightarrow> idx (map byte ks) i = byte (ks ! i)"
  by (simp add: idx_def)

lemma testRecord_fields:
  assumes "\<forall>k\<in>set ks. 0 \<le> k \<and> k < 256" "i + 7 < length ks"
  shows "min_val (testRecord (map byte ks) i) = of_int (signed16 (ks ! (i + 2)) (ks ! (i + 3))) / 1000"
    and "max_val (testRecord (map byte ks) i) = of_int (signed16 (ks ! (i + 4)) (ks ! (i + 5))) / 1000"
    and "cur_val (testRecord (map byte ks) i) = of_int (signed16 (ks ! (i + 6)) (ks ! (i + 7))) / 1000"
    and "percentToLimit (testRecord (map byte ks) i) =
          (if max_val (testRecord (map byte ks) i) - min_val (testRecord (map byte ks) i) > 0
           then (cur_val (testRecord (map byte ks) i) - min_val (testRecord (map byte ks) i))
                / (max_val (testRecord (map byte ks) i) - min_val (testRecord (map byte ks) i)) * 100
           else 0)"
proof -
  have b: "\<And>n. n < length ks \<Longrightarrow> 0 \<le> ks ! n \<and> ks ! n < 256"
    using assms(1) by (meson nth_mem)
  have p: "\<And>a c. a < length ks \<Longrightarrow> c < length ks \<Longrightarrow>
      parseSignedInt16 (idx (map byte ks) a) (idx (map byte ks) c) = signed16 (ks ! a) (ks ! c)"
    using b by (simp add: idx_bytes parseSignedInt16_bytes)
  show "min_val (testRecord (map byte ks) i) = of_int (signed16 (ks ! (i + 2)) (ks ! (i + 3))) / 1000"
    using assms(2) by (simp add: testRecord_def Let_def p)
  show "max_val (testRecord (map byte ks) i) = of_int (signed16 (ks ! (i + 4)) (ks ! (i + 5))) / 1000"
    using assms(2) by (simp add: testRecord_def Let_def p)
  show "cur_val (testRecord (map byte ks) i) = of_int (signed16 (ks ! (i + 6)) (ks ! (i + 7))) / 1000"
    using assms(2) by (simp add: testRecord_def Let_def p)
  show "percentToLimit (testRecord (map byte ks) i) =
          (if max_val (testRecord (map byte ks) i) - min_val (testRecord (map byte ks) i) > 0
           then (cur_val (testRecord (map byte ks) i) - min_val (testRecord (map byte ks) i))
                / (max_val (testRecord (map byte ks) i) - min_val (testRecord (map byte ks) i)) * 100
           else 0)"
    by (simp add: testRecord_def Let_def field_simps)
qed


text \<open>
  Claim C5, amended: in the test-table decode, for every 8-byte record that lies wholly in
  the payload, \<open>min\<close>, \<open>max\<close> and the current value are each the signed 16-bit reading of
  their two bytes (raw values above 32767 lowered by 65536) times the scale factor 0.001,
  and \<open>percentToLimit\<close> is \<open>(current - min) / (max - min) * 100\<close> whenever the range
  \<open>max - min\<close> is positive and 0 otherwise; the result is not clamped to [0, 100].
\<close>

theorem test_table_decode:
  assumes "parseOBDResponse hex ''4600'' = Some (map byte ks)"
    and "\<forall>k\<in>set ks. 0 \<le> k \<and> k < 256"
    and "8 * j + 7 < length ks"
  shows "j < length (parseTestResults hex [])
    \<and> min_val (parseTestResults hex [] ! j) = of_int (signed16 (ks ! (8 * j + 2)) (ks ! (8 * j + 3))) * (1 / 1000)
    \<and> max_val (parseTestResults hex [] ! j) = of_int (signed16 (ks ! (8 * j + 4)) (ks ! (8 * j + 5))) * (1 / 1000)
    \<and> cur_val (parseTestResults hex [] ! j) = of_int (signed16 (ks ! (8 * j + 6)) (ks ! (8 * j + 7))) * (1 / 1000)
    \<and> percentToLimit (parseTestResults hex [] ! j) =
        (if max_val (parseTestResults hex [] ! j) - min_val (parseTestResults hex [] ! j) > 0
         then (cur_val (parseTestResults hex [] ! j) - min_val (parseTestResults hex [] ! j))
              / (max_val (parseTestResults hex [] ! j) - min_val (parseTestResults hex [] ! j)) * 100
         else 0)"
proof -
  have l: "\<not> length ks < 4" using assms(3) by simp
  have n: "j < length (testLoop (map byte ks) (8 * 0) []) \<and>
        testLoop (map byte ks) (8 * 0) [] ! j = testRecord (map byte ks) (8 * j)"
    using assms(3) by (intro testLoop_nth) auto
  have r: "parseTestResults hex [] = testLoop (map byte ks) 0 []"
    using l by (simp add: parseTestResults_def assms(1))
  have f: "8 * j + 7 < length ks" by (rule assms(3))
  show ?thesis
    using n testRecord_fields [OF assms(2) f] unfolding r by simp
qed

text \<open>
  Witness for C5: one record with a negative minimum (\<open>FF FE\<close> is -2); the result, about
  128.6, is above 100.
\<close>

theorem test_table_decode_witness:
  "parseOBDResponse (Some ''7E8 46 00 01 00 FF FE 00 05 00 07'') ''4600'' = Some (map byte [1, 0, 255, 254, 0, 5, 0, 7])
   \<and> list_all (\<lambda>k. 0 \<le> k \<and> k < 256) [1, 0, 255, 254, 0, 5, 0, 7 :: int]
   \<and> min_val (parseTestResults (Some ''7E8 46 00 01 00 FF FE 00 05 00 07'') [] ! 0) = - 2 / 1000
   \<and> max_val (parseTestResults (Some ''7E8 46 00 01 00 FF FE 00 05 00 07'') [] ! 0) = 5 / 1000
   \<and> cur_val (parseTestResults (Some ''7E8 46 00 01 00 FF FE 00 05 00 07'') [] ! 0) = 7 / 1000
   \<and> percentToLimit (parseTestResults (Some ''7E8 46 00 01 00 FF FE 00 05 00 07'') [] ! 0) = 900 / 7"
proof -
  let ?r = "parseTestResults (Some ''7E8 46 00 01 00 FF FE 00 05 00 07'') [] ! 0"
  have a: "parseOBDResponse (Some ''7E8 46 00 01 00 FF FE 00 05 00 07'') ''4600'' = Some (map byte [1, 0, 255, 254, 0, 5, 0, 7])"
    by (simp add: parseOBDResponse_def isSpace_def toUpperCase_def isHexUpper_def between_def ord_def
        parseInt16_def stripHexPrefix_def hexDigit_def byte_def)
  have b: "\<forall>k\<in>set [1, 0, 255, 254, 0, 5, 0, 7 :: int]. 0 \<le> k \<and> k < 256" by simp
  have c: "8 * 0 + 7 < length [1, 0, 255, 254, 0, 5, 0, 7 :: int]" by simp
  note th = test_table_decode [OF a b c]
  have mn: "min_val ?r = - 2 / 1000" using th by (simp add: signed16_def)
  have mx: "max_val ?r = 5 / 1000" using th by (simp add: signed16_def)
  have cu: "cur_val ?r = 7 / 1000" using th by (simp add: signed16_def)
  have "percentToLimit ?r = (if max_val ?r - min_val ?r > 0
         then (cur_val ?r - min_val ?r) / (max_val ?r - min_val ?r) * 100 else 0)"
    using th by blast
  then have pc: "percentToLimit ?r = 900 / 7" unfolding mn mx cu by simp
  show ?thesis using a mn mx cu pc by simp
qed

text \<open>
  Claim C5, as stated, gives \<open>(current - min) / (max - min) * 100\<close> whenever the range is
  non-zero. For the record with minimum 10, maximum 5 and current value 7 the range is
  non-zero, the quotient is 60, and the decode yields 0: the source tests \<open>range > 0\<close>.
\<close>

theorem percentToLimit_zero_on_negative_range:
  "max_val reversedLimitsRow - min_val reversedLimitsRow \<noteq> 0
   \<and> percentToLimit reversedLimitsRow
       \<noteq> (cur_val reversedLimitsRow - min_val reversedLimitsRow)
          / (max_val reversedLimitsRow - min_val reversedLimitsRow) * 100"
proof -
  let ?bytes = "[byte 1, byte 0, byte 0, byte 10, byte 0, byte 5, byte 0, byte 7]"
  have a: "parseOBDResponse (Some reversedLimitsFrame) ''4600'' = Some ?bytes"
    by (simp add: reversedLimitsFrame_def parseOBDResponse_def isSpace_def toUpperCase_def isHexUpper_def between_def ord_def
        parseInt16_def stripHexPrefix_def hexDigit_def byte_def)
  have t: "testLoop ?bytes 0 [] = [testRecord ?bytes 0]"
    by (simp add: testLoop.simps)
  have p: "parseSignedInt16 (byte 0) (byte 10) = 10" "parseSignedInt16 (byte 0) (byte 5) = 5"
    "parseSignedInt16 (byte 0) (byte 7) = 7"
    by (simp_all add: parseSignedInt16_bytes signed16_def)
  have r: "reversedLimitsRow = testRecord ?bytes 0"
    by (simp add: reversedLimitsRow_def parseTestResults_def a t)
  have m: "min_val reversedLimitsRow = 10 / 1000" "max_val reversedLimitsRow = 5 / 1000"
    "cur_val reversedLimitsRow = 7 / 1000" "percentToLimit reversedLimitsRow = 0"
    by (simp_all add: r testRecord_def Let_def idx_def p)
  show ?thesis by (simp add: m)
qed

section \<open>Trend slope\<close>

lemma fold_accumulate:
  "fold accumulate (enumerate k data) (a, b, c, d) =
     (a + (\<Sum>p\<leftarrow>enumerate k data. of_nat (fst p)),
      b + (\<Sum>p\<leftarrow>enumerate k data. pvalue (snd p)),
      c + (\<Sum>p\<leftarrow>enumerate k data. of_nat (fst p) * pvalue (snd p)),
      d + (\<Sum>p\<leftarrow>enumerate k data. of_nat (fst p) * of_nat (fst p)))"
  by (induction data arbitrary: k a b c d) (simp_all add: accumulate_def Let_def algebra_simps)

lemma sum_list_enumerate:
  "(\<Sum>p\<leftarrow>enumerate 0 data. f (fst p) (snd p)) = (\<Sum>i<length data. f i (data ! i))"
proof -
  have "(\<Sum>p\<leftarrow>enumerate 0 data. f (fst p) (snd p)) = (\<Sum>i = 0..<length data. f (fst (enumerate 0 data ! i)) (snd (enumerate 0 data ! i)))"
    by (simp add: sum_list_sum_nth)
  also have "\<dots> = (\<Sum>i = 0..<length data. f i (data ! i))"
    by (rule sum.cong) (simp_all add: nth_enumerate_eq)
  finally show ?thesis by (simp add: atLeast0LessThan)
qed

lemma calculateTrend_sums:
  assumes "2 \<le> length data"
  shows "slope (calculateTrend data) =
     (of_nat (length data) * (\<Sum>i<length data. of_nat i * pvalue (data ! i))
        - (\<Sum>i<length data. of_nat i) * (\<Sum>i<length data. pvalue (data ! i)))
     / (of_nat (length data) * (\<Sum>i<length data. of_nat i * of_nat i)
        - (\<Sum>i<length data. of_nat i) * (\<Sum>i<length data. of_nat i))"
proof -
  have 1: "(\<Sum>p\<leftarrow>enumerate 0 data. (of_nat (fst p) :: rat)) = (\<Sum>i<length data. of_nat i)"
    using sum_list_enumerate [of "\<lambda>i p. of_nat i" data] by simp
  have 2: "(\<Sum>p\<leftarrow>enumerate 0 data. pvalue (snd p)) = (\<Sum>i<length data. pvalue (data ! i))"
    using sum_list_enumerate [of "\<lambda>i p. pvalue p" data] by simp
  have 3: "(\<Sum>p\<leftarrow>enumerate 0 data. of_nat (fst p) * pvalue (snd p)) = (\<Sum>i<length data. of_nat i * pvalue (data ! i))"
    using sum_list_enumerate [of "\<lambda>i p. of_nat i * pvalue p" data] by simp
  have 4: "(\<Sum>p\<leftarrow>enumerate 0 data. (of_nat (fst p) :: rat) * of_nat (fst p)) = (\<Sum>i<length data. of_nat i * of_nat i)"
    using sum_list_enumerate [of "\<lambda>i p. of_nat i * of_nat i" data] by simp
  show ?thesis
    using assms by (simp add: calculateTrend_def fold_accumulate 1 2 3 4 Let_def)
qed


lemma sum_dev_products:
  fixes x y :: "nat \<Rightarrow> rat"
  shows "(\<Sum>i<n. (x i - a) * (y i - b)) =
     (\<Sum>i<n. x i * y i) - b * (\<Sum>i<n. x i) - a * (\<Sum>i<n. y i) + of_nat n * a * b"
  by (simp add: algebra_simps sum.distrib sum_subtractf sum_distrib_left)

lemma ols_scaled:
  fixes x y :: "nat \<Rightarrow> rat"
  assumes "0 < n"
  shows "of_nat n * (\<Sum>i<n. (x i - (\<Sum>i<n. x i) / of_nat n) * (y i - (\<Sum>i<n. y i) / of_nat n)) =
     of_nat n * (\<Sum>i<n. x i * y i) - (\<Sum>i<n. x i) * (\<Sum>i<n. y i)"
proof -
  define A where "A = (\<Sum>i<n. x i)"
  define B where "B = (\<Sum>i<n. y i)"
  define C where "C = (\<Sum>i<n. x i * y i)"
  have nz: "(of_nat n :: rat) \<noteq> 0" using assms by simp
  have "(\<Sum>i<n. (x i - A / of_nat n) * (y i - B / of_nat n)) =
      C - B / of_nat n * A - A / of_nat n * B + of_nat n * (A / of_nat n) * (B / of_nat n)"
    unfolding A_def B_def C_def by (rule sum_dev_products)
  also have "of_nat n * \<dots> = of_nat n * C - A * B"
    using nz by (simp add: field_simps)
  finally show ?thesis unfolding A_def B_def C_def .
qed

lemma positions_sum_pos: "2 \<le> n \<Longrightarrow> 0 < (\<Sum>i<n. (of_nat i :: rat))"
  by (rule sum_pos2 [of _ 1]) auto

lemma olsSxx_pos:
  assumes "2 \<le> length ys"
  shows "0 < olsSxx ys"
proof -
  have m: "0 < olsMeanX ys"
    unfolding olsMeanX_def
    using assms positions_sum_pos [of "length ys"] by (intro divide_pos_pos) auto
  show ?thesis
    unfolding olsSxx_def
    by (rule sum_pos2 [of _ 0]) (use assms m in auto)
qed

text \<open>
  Claim C9: the slope computed by \<open>calculateTrend\<close> is the ordinary-least-squares slope of
  the series taken as (index, value) pairs, the index being the position in the sequence
  (the time stamps are not read); for a series of at least two points the least-squares
  quotient is well defined. In particular the values 12.6, 12.5, 12.4, 12.3, 12.2 at
  positions 0 to 4 give the slope -0.1 per step, whatever their time stamps.
\<close>

theorem calculateTrend_is_least_squares:
  "(2 \<le> length data \<longrightarrow>
      slope (calculateTrend data) = olsSlope (map pvalue data) \<and> olsSxx (map pvalue data) \<noteq> 0)
   \<and> (map pvalue data = [12.6, 12.5, 12.4, 12.3, 12.2] \<longrightarrow> slope (calculateTrend data) = - 0.1)"
proof (intro conjI impI)
  assume n2: "2 \<le> length data"
  let ?n = "length data"
  let ?ys = "map pvalue data"
  have n0: "0 < ?n" using n2 by (cases data) auto
  have y: "(\<Sum>i<?n. ?ys ! i) = (\<Sum>i<?n. pvalue (data ! i))"
    by (rule sum.cong) simp_all
  have xy: "(\<Sum>i<?n. of_nat i * ?ys ! i) = (\<Sum>i<?n. of_nat i * pvalue (data ! i))"
    by (rule sum.cong) simp_all
  have num: "of_nat ?n * olsSxy ?ys =
      of_nat ?n * (\<Sum>i<?n. of_nat i * pvalue (data ! i)) - (\<Sum>i<?n. of_nat i) * (\<Sum>i<?n. pvalue (data ! i))"
    using ols_scaled [OF n0, of "\<lambda>i. of_nat i" "\<lambda>i. ?ys ! i"]
    by (simp add: olsSxy_def olsMeanX_def olsMeanY_def y xy)
  have den: "of_nat ?n * olsSxx ?ys =
      of_nat ?n * (\<Sum>i<?n. of_nat i * of_nat i) - (\<Sum>i<?n. of_nat i) * (\<Sum>i<?n. of_nat i)"
    using ols_scaled [OF n0, of "\<lambda>i. of_nat i" "\<lambda>i. of_nat i"]
    by (simp add: olsSxx_def olsMeanX_def)
  have nz: "(of_nat ?n :: rat) \<noteq> 0" using n0 by simp
  have "slope (calculateTrend data) = (of_nat ?n * olsSxy ?ys) / (of_nat ?n * olsSxx ?ys)"
    unfolding calculateTrend_sums [OF n2] num den ..
  also have "\<dots> = olsSlope ?ys"
    using nz unfolding olsSlope_def by (rule mult_divide_mult_cancel_left)
  finally show "slope (calculateTrend data) = olsSlope ?ys" .
  have "2 \<le> length ?ys" using n2 by simp
  then have "0 < olsSxx ?ys" by (rule olsSxx_pos)
  then show "olsSxx ?ys \<noteq> 0" by simp
next
  assume v: "map pvalue data = [12.6, 12.5, 12.4, 12.3, 12.2]"
  have "length (map pvalue data) = 5" by (simp add: v)
  then have l: "length data = 5" by simp
  have p: "pvalue (data ! i) = [12.6, 12.5, 12.4, 12.3, 12.2] ! i" if "i < 5" for i
  proof -
    have "pvalue (data ! i) = map pvalue data ! i" using that l by simp
    then show ?thesis by (simp only: v)
  qed
  have n2: "2 \<le> length data" using l by simp
  have five: "{..<5::nat} = {0, 1, 2, 3, 4}" by auto
  have s1: "(\<Sum>i<5. (of_nat i :: rat)) = 10" by (simp add: five)
  have s2: "(\<Sum>i<5. pvalue (data ! i)) = 62" using p by (simp add: five)
  have s3: "(\<Sum>i<5. of_nat i * pvalue (data ! i)) = 123" using p by (simp add: five)
  have s4: "(\<Sum>i<5. (of_nat i :: rat) * of_nat i) = 30" by (simp add: five)
  show "slope (calculateTrend data) = - 0.1"
    unfolding calculateTrend_sums [OF n2] l s1 s2 s3 s4 by simp
qed


text \<open>Witness for C9: the five declining voltages, recorded a minute apart.\<close>

theorem calculateTrend_is_least_squares_witness:
  "2 \<le> length decliningVoltage
   \<and> map pvalue decliningVoltage = [12.6, 12.5, 12.4, 12.3, 12.2]
   \<and> slope (calculateTrend decliningVoltage) = - 0.1
   \<and> olsSlope (map pvalue decliningVoltage) = - 0.1
   \<and> olsSxx (map pvalue decliningVoltage) \<noteq> 0"
proof -
  have a: "2 \<le> length decliningVoltage" by (simp add: decliningVoltage_def)
  have b: "map pvalue decliningVoltage = [12.6, 12.5, 12.4, 12.3, 12.2]"
    by (simp add: decliningVoltage_def)
  note th = calculateTrend_is_least_squares [of decliningVoltage]
  have c: "slope (calculateTrend decliningVoltage) = - 0.1" using th b by blast
  have d: "slope (calculateTrend decliningVoltage) = olsSlope (map pvalue decliningVoltage)"
    using th a by blast
  have e: "olsSxx (map pvalue decliningVoltage) \<noteq> 0" using th a by blast
  show ?thesis using a b c d e by simp
qed

section \<open>Command scheduler: order, spacing, disconnect\<close>


lemma suspend_fields [simp]:
  "isProcessingQueue (suspend i a s) = isProcessingQueue s"
  "commandQueue (suspend i a s) = commandQueue s"
  "settled (suspend i a s) = settled s"
  "promises (suspend i a s) = promises s"
  "loops (suspend i a s) = (loops s)[i := a]"
  by (simp_all add: suspend_def)

lemma settle_fields [simp]:
  "isProcessingQueue (settle h r s) = isProcessingQueue s"
  "commandQueue (settle h r s) = commandQueue s"
  "settled (settle h r s) = settled s @ [(h, r)]"
  "promises (settle h r s) = promises s"
  "loops (settle h r s) = loops s"
  by (simp_all add: settle_def)

lemma transmit_fields [simp]:
  "isProcessingQueue (transmit i e s) = isProcessingQueue s"
  "commandQueue (transmit i e s) = commandQueue s"
  "settled (transmit i e s) = settled s"
  "promises (transmit i e s) = promises s"
  by (simp_all add: transmit_def Let_def)

lemmas close_defs = disconnect_def cancelReader_def closeWriter_def closePort_def dropBLE_def
  park_def closeDone_def closerAt_def

lemma disconnect_fields [simp]:
  "isProcessingQueue (disconnect s) = False"
  "commandQueue (disconnect s) = []"
  "connected (disconnect s) = False"
  "settled (disconnect s) = settled s"
  "promises (disconnect s) = promises s"
  "loops (disconnect s) = loops s"
  "written (disconnect s) = written s"
  by (simp_all add: close_defs)

lemma closeDone_fields [simp]:
  "isProcessingQueue (closeDone i s) = isProcessingQueue s"
  "commandQueue (closeDone i s) = commandQueue s"
  "connected (closeDone i s) = connected s"
  "settled (closeDone i s) = settled s"
  "promises (closeDone i s) = promises s"
  "loops (closeDone i s) = loops s"
  "written (closeDone i s) = written s"
  "now (closeDone i s) = now s"
  "lastCommandTime (closeDone i s) = lastCommandTime s"
  "minCommandDelay (closeDone i s) = minCommandDelay s"
  by (simp_all add: close_defs split: closing.splits)

lemma transmit_loops:
  "\<exists>a. loops (transmit i e s) = (loops s)[i := a] \<and> held a = [e]"
proof (cases "writer s \<or> characteristic s")
  case True
  then have "loops (transmit i e s) = (loops s)[i := AwaitWrite e]"
    by (auto simp: transmit_def Let_def)
  then show ?thesis by (intro exI [of _ "AwaitWrite e"]) simp
next
  case False
  then have "loops (transmit i e s) = (loops s)[i := AwaitResponse e (now s) (now s + 50)]"
    by (auto simp: transmit_def Let_def)
  then show ?thesis by (intro exI [of _ "AwaitResponse e (now s) (now s + 50)"]) simp
qed

lemma busy_after_update:
  assumes "isProcessingQueue s" "i < length (loops s)"
    and "\<forall>j<length (loops s). j \<noteq> i \<longrightarrow> loops s ! j = Finished"
    and "isProcessingQueue s'" "commandQueue s' = q" "settled s' = settled s" "promises s' = promises s"
    and "loops s' = (loops s)[i := a]" "held a = [e]"
    and "map fst (settled s) @ hdl e # map hdl q = [0..<promises s]"
  shows "busy s' i e"
  using assms by (simp add: busy_def)

lemma drain_fifo:
  assumes "atHead s i"
  shows "fifo (drain i s)"
proof (cases "commandQueue s")
  case Nil
  have "quiet (drain i s)"
    using assms Nil by (auto simp: quiet_def atHead_def drain_def nth_list_update)
  then show ?thesis by (simp add: fifo_def)
next
  case (Cons e rest)
  let ?s1 = "s\<lparr> commandQueue := rest \<rparr>"
  have h: "isProcessingQueue ?s1" "i < length (loops ?s1)"
    "\<forall>j<length (loops ?s1). j \<noteq> i \<longrightarrow> loops ?s1 ! j = Finished"
    "map fst (settled ?s1) @ hdl e # map hdl rest = [0..<promises ?s1]"
    using assms Cons by (simp_all add: atHead_def)
  show ?thesis
  proof (cases "max 0 (minCommandDelay ?s1 - (now ?s1 - lastCommandTime ?s1)) > 0")
    case True
    then have d: "drain i s = suspend i (AwaitDelay e (now ?s1 + max 0 (minCommandDelay ?s1 - (now ?s1 - lastCommandTime ?s1)))) ?s1"
      using Cons by (simp add: drain_def Let_def)
    have "busy (drain i s) i e"
      unfolding d using h by (simp add: busy_def)
    then show ?thesis by (auto simp: fifo_def)
  next
    case False
    then have d: "drain i s = transmit i e ?s1"
      using Cons by (simp add: drain_def Let_def)
    obtain a where a: "loops (transmit i e ?s1) = (loops ?s1)[i := a]" "held a = [e]"
      using transmit_loops by blast
    have "busy (drain i s) i e"
      unfolding d using h a by (simp add: busy_def)
    then show ?thesis by (auto simp: fifo_def)
  qed
qed


lemma quiet_activation: "quiet s \<Longrightarrow> activationAt s j = Finished"
  by (simp add: quiet_def activationAt_def)

lemma busy_activation_other: "busy s i e \<Longrightarrow> j \<noteq> i \<Longrightarrow> activationAt s j = Finished"
  by (simp add: busy_def activationAt_def)

lemma busy_activation_self: "busy s i e \<Longrightarrow> activationAt s i = loops s ! i"
  by (simp add: busy_def activationAt_def)

lemma busy_atHead_settle:
  "busy s i e \<Longrightarrow> commandQueue s' = commandQueue s \<Longrightarrow> settled s' = settled s \<Longrightarrow>
     promises s' = promises s \<Longrightarrow> loops s' = loops s \<Longrightarrow> isProcessingQueue s' = isProcessingQueue s \<Longrightarrow>
     atHead (settle (hdl e) r s') i"
  by (simp add: busy_def atHead_def)

lemma busy_resuspend:
  "busy s i e \<Longrightarrow> held a = [e] \<Longrightarrow> busy (suspend i a s) i e"
  by (simp add: busy_def)

lemma busy_transmit:
  assumes "busy s i e"
  shows "busy (transmit i e s) i e"
proof -
  obtain a where a: "loops (transmit i e s) = (loops s)[i := a]" "held a = [e]"
    using transmit_loops by blast
  show ?thesis using assms a by (simp add: busy_def)
qed

lemma sendCommand_fifo:
  assumes "fifo s"
  shows "fifo (sendCommand c t s)"
proof -
  let ?new = "\<lparr> cmd = c, hdl = promises s, timeout = t \<rparr>"
  let ?s1 = "s\<lparr> commandQueue := commandQueue s @ [?new], promises := promises s + 1 \<rparr>"
  from assms consider (q) "quiet s" | (b) i e where "busy s i e"
    by (auto simp: fifo_def)
  then show ?thesis
  proof cases
    case q
    let ?s2 = "?s1\<lparr> isProcessingQueue := True, loops := loops ?s1 @ [Finished] \<rparr>"
    have p: "sendCommand c t s = drain (length (loops s)) ?s2"
      using q by (simp add: sendCommand_def processQueue_def quiet_def)
    have "atHead ?s2 (length (loops s))"
      using q by (auto simp: atHead_def quiet_def nth_append)
    then show ?thesis unfolding p by (rule drain_fifo)
  next
    case b
    have p: "sendCommand c t s = ?s1"
      using b by (simp add: sendCommand_def processQueue_def busy_def)
    have "busy ?s1 i e"
      using b by (simp add: busy_def)
    then show ?thesis unfolding p by (auto simp: fifo_def)
  qed
qed

lemma check_fifo:
  assumes "busy s i e"
  shows "fifo (check i e start s)"
proof -
  have 1: "fifo (drain i (settle (hdl e) r (s\<lparr> lastCommandTime := now s \<rparr>)))" for r
    by (rule drain_fifo, rule busy_atHead_settle [OF assms]) simp_all
  have 2: "fifo (drain i (settle (hdl e) r s))" for r
    by (rule drain_fifo, rule busy_atHead_settle [OF assms]) simp_all
  have 3: "fifo (suspend i (AwaitResponse e start (now s + 50)) s)"
    using busy_resuspend [OF assms, of "AwaitResponse e start (now s + 50)"] by (auto simp: fifo_def)
  show ?thesis using 1 2 3 by (simp add: check_def)
qed

lemma step_fifo:
  assumes "fifo s" "ev \<noteq> Disconnect"
  shows "fifo (step ev s)"
proof -
  from assms(1) consider (q) "quiet s" | (b) i e where "busy s i e"
    by (auto simp: fifo_def)
  then show ?thesis
  proof cases
    case q
    show ?thesis
    proof (cases ev)
      case (SendCommand c t)
      then show ?thesis using sendCommand_fifo [OF assms(1)] by (simp add: step_def)
    next
      case Disconnect
      then show ?thesis using assms(2) by simp
    next
      case (CloseDone j)
      then show ?thesis using q by (simp add: step_def fifo_def quiet_def)
    qed (use q assms(1) in \<open>auto simp: step_def quiet_activation fifo_def quiet_def\<close>)
  next
    case b
    note act = busy_activation_self [OF b]
    have h: "held (loops s ! i) = [e]" using b by (simp add: busy_def)
    show ?thesis
    proof (cases ev)
      case OpenSerial
      then show ?thesis using b by (auto simp: step_def fifo_def busy_def)
    next
      case OpenBLE
      then show ?thesis using b by (auto simp: step_def fifo_def busy_def)
    next
      case (SendCommand c t)
      then show ?thesis using sendCommand_fifo [OF assms(1)] by (simp add: step_def)
    next
      case (Elapse d)
      then show ?thesis using b by (auto simp: step_def fifo_def busy_def)
    next
      case (Incoming d)
      then show ?thesis using b by (auto simp: step_def fifo_def busy_def)
    next
      case Disconnect
      then show ?thesis using assms(2) by simp
    next
      case (CloseDone j)
      have "busy (closeDone j s) i e" using b by (simp add: busy_def)
      then show ?thesis by (auto simp: CloseDone step_def fifo_def)
    next
      case (DelayOver j)
      show ?thesis
      proof (cases "j = i")
        case False
        then show ?thesis using assms(1) busy_activation_other [OF b False] by (simp add: step_def DelayOver)
      next
        case True
        show ?thesis
        proof (cases "loops s ! i")
          case (AwaitDelay e' due)
          then have "e' = e" using h by simp
          then show ?thesis
            using assms(1) busy_transmit [OF b] AwaitDelay act
            by (auto simp: step_def DelayOver True fifo_def)
        qed (use assms(1) act in \<open>simp_all add: step_def DelayOver True\<close>)
      qed
    next
      case (WriteDone j err)
      show ?thesis
      proof (cases "j = i")
        case False
        then show ?thesis using assms(1) busy_activation_other [OF b False] by (simp add: step_def WriteDone)
      next
        case True
        show ?thesis
        proof (cases "loops s ! i")
          case (AwaitWrite e')
          then have e': "e' = e" using h by simp
          show ?thesis
          proof (cases err)
            case None
            have "busy (suspend i (AwaitResponse e (now s) (now s + 50)) s) i e"
              by (rule busy_resuspend [OF b]) simp
            then show ?thesis
              using AwaitWrite act e' None by (auto simp: step_def WriteDone True fifo_def)
          next
            case (Some msg)
            have "fifo (drain i (settle (hdl e) (Rejected msg) s))"
              by (rule drain_fifo, rule busy_atHead_settle [OF b]) simp_all
            then show ?thesis
              using AwaitWrite act e' Some by (simp add: step_def WriteDone True)
          qed
        qed (use assms(1) act in \<open>simp_all add: step_def WriteDone True\<close>)
      qed
    next
      case (Poll j)
      show ?thesis
      proof (cases "j = i")
        case False
        then show ?thesis using assms(1) busy_activation_other [OF b False] by (simp add: step_def Poll)
      next
        case True
        show ?thesis
        proof (cases "loops s ! i")
          case (AwaitResponse e' start due)
          then have "e' = e" using h by simp
          then show ?thesis
            using assms(1) check_fifo [OF b, of start] AwaitResponse act
            by (simp add: step_def Poll True)
        qed (use assms(1) act in \<open>simp_all add: step_def Poll True\<close>)
      qed
    qed
  qed
qed


lemma fifo_start: "fifo (OBDInterface t0)"
  by (simp add: fifo_def quiet_def OBDInterface_def)


lemma drain_promises [simp]: "promises (drain i s) = promises s"
  by (simp add: drain_def Let_def split: list.splits)

lemma check_promises [simp]: "promises (check i e start s) = promises s"
  by (simp add: check_def)




lemmas kernel_defs = run_def step_def sendCommand_def processQueue_def drain_def transmit_def
  suspend_def settle_def check_def activationAt_def close_defs OBDInterface_def Let_def
  trim_def isSpace_def





text \<open>
  Claim C2 asks for at least \<open>minCommandDelay\<close> (150 ms) between any two consecutive
  writes, whatever the time-outs. \<open>lastCommandTime\<close> is stored only when a response
  arrived; after a rejection it keeps its old value. In the burst below the command written
  at 1001050 is rejected by its first poll, because its time-out of 10 ms has passed, and
  the next command is written at 1001100, 50 ms after the previous write.
\<close>

theorem spacing_lost_after_timeout:
  "minCommandDelay (run shortTimeoutBurst (OBDInterface 1000000)) = 150
   \<and> written (run shortTimeoutBurst (OBDInterface 1000000)) =
       [(1000000, ''ATZ'' @ [CHR 0x0D]), (1001050, ''0100'' @ [CHR 0x0D]), (1001100, ''010C'' @ [CHR 0x0D])]
   \<and> settled (run shortTimeoutBurst (OBDInterface 1000000)) =
       [(0, Resolved ''ELM327 v1.5''), (1, Rejected ''Timeout waiting for response'')]
   \<and> lastCommandTime (run shortTimeoutBurst (OBDInterface 1000000)) = 1000050"
  by (simp add: shortTimeoutBurst_def kernel_defs)



lemma inFlight_loops: "loops s' = loops s \<Longrightarrow> inFlight s' = inFlight s"
  by (simp add: inFlight_def)



lemma drain_settled [simp]: "settled (drain i s) = settled s"
  by (simp add: drain_def Let_def split: list.splits)




















subsection \<open>Write spacing while every command is answered\<close>

text \<open>
  As long as no promise has been rejected, \<open>lastCommandTime\<close> is at least the time of every
  write, and a write happens only once \<open>minCommandDelay\<close> has passed since: consecutive
  writes are then at least 150 ms apart.
\<close>

lemma spaced_snoc:
  "spaced d xs \<Longrightarrow> (\<forall>x\<in>set xs. x + d \<le> y) \<Longrightarrow> spaced d (xs @ [y])"
  by (induction d xs rule: spaced.induct) auto

lemma pacedI:
  assumes "minCommandDelay s = 150" "\<forall>w\<in>set (writeTimes s). w \<le> now s" "spaced 150 (writeTimes s)"
    and "(\<forall>j<length (loops s). loops s ! j = Finished) \<Longrightarrow> \<forall>w\<in>set (writeTimes s). w \<le> lastCommandTime s"
    and "\<And>j e due. j < length (loops s) \<Longrightarrow> loops s ! j = AwaitDelay e due \<Longrightarrow>
           (\<forall>w\<in>set (writeTimes s). w \<le> lastCommandTime s) \<and> lastCommandTime s + 150 \<le> due"
  shows "paced s"
  using assms unfolding paced_def by blast

lemma only_activation:
  assumes "i < length xs" "\<forall>j<length xs. j \<noteq> i \<longrightarrow> xs ! j = Finished"
    and "j < length (xs[i := a])" "(xs[i := a]) ! j \<noteq> Finished"
  shows "j = i \<and> (xs[i := a]) ! j = a"
  using assms by (cases "j = i") auto

lemma transmit_paced:
  assumes h: "i < length (loops s)" "\<forall>j<length (loops s). j \<noteq> i \<longrightarrow> loops s ! j = Finished"
    and b: "minCommandDelay s = 150" "\<forall>w\<in>set (writeTimes s). w \<le> now s" "spaced 150 (writeTimes s)"
    and l: "\<forall>w\<in>set (writeTimes s). w + 150 \<le> now s"
  shows "paced (transmit i e s)"
proof -
  obtain a where a: "loops (transmit i e s) = (loops s)[i := a]" "held a = [e]" "\<forall>e' due. a \<noteq> AwaitDelay e' due"
  proof (cases "writer s \<or> characteristic s")
    case True
    then have "loops (transmit i e s) = (loops s)[i := AwaitWrite e]"
      by (auto simp: transmit_def Let_def)
    then show ?thesis using that [of "AwaitWrite e"] by simp
  next
    case False
    then have "loops (transmit i e s) = (loops s)[i := AwaitResponse e (now s) (now s + 50)]"
      by (auto simp: transmit_def Let_def)
    then show ?thesis using that [of "AwaitResponse e (now s) (now s + 50)"] by simp
  qed
  have w: "writeTimes (transmit i e s) = writeTimes s \<or> writeTimes (transmit i e s) = writeTimes s @ [now s]"
    by (auto simp: transmit_def suspend_def writeTimes_def Let_def)
  have f: "minCommandDelay (transmit i e s) = 150" "now (transmit i e s) = now s"
    using b(1) by (auto simp: transmit_def suspend_def Let_def)
  have nf: "(loops (transmit i e s)) ! i \<noteq> Finished"
    using a h(1) by auto
  show ?thesis
  proof (rule pacedI)
    show "minCommandDelay (transmit i e s) = 150" by (rule f)
    show "\<forall>w\<in>set (writeTimes (transmit i e s)). w \<le> now (transmit i e s)"
      using w b(2) by (auto simp: f)
    show "spaced 150 (writeTimes (transmit i e s))"
      using w b(3) spaced_snoc [OF b(3), of "now s"] l by auto
    show "\<forall>w\<in>set (writeTimes (transmit i e s)). w \<le> lastCommandTime (transmit i e s)"
      if "\<forall>j<length (loops (transmit i e s)). loops (transmit i e s) ! j = Finished"
      using that nf h(1) a(1) by (metis length_list_update)
    show "(\<forall>w\<in>set (writeTimes (transmit i e s)). w \<le> lastCommandTime (transmit i e s))
        \<and> lastCommandTime (transmit i e s) + 150 \<le> due"
      if "j < length (loops (transmit i e s))" "loops (transmit i e s) ! j = AwaitDelay e' due" for j e' due
    proof -
      have "(loops s)[i := a] ! j = AwaitDelay e' due"
        using that(2) unfolding a(1) .
      moreover have "j < length ((loops s)[i := a])"
        using that(1) unfolding a(1) .
      ultimately have "(loops s)[i := a] ! j = a"
        using only_activation [OF h(1) h(2), of j a] by simp
      then have "a = AwaitDelay e' due"
        using \<open>(loops s)[i := a] ! j = AwaitDelay e' due\<close> by simp
      then show ?thesis using a(3) by blast
    qed
  qed
qed


lemma suspend_paced:
  assumes h: "i < length (loops s)" "\<forall>j<length (loops s). j \<noteq> i \<longrightarrow> loops s ! j = Finished"
    and b: "minCommandDelay s = 150" "\<forall>w\<in>set (writeTimes s). w \<le> now s" "spaced 150 (writeTimes s)"
    and a: "a \<noteq> Finished"
      "\<And>e due. a = AwaitDelay e due \<Longrightarrow>
          (\<forall>w\<in>set (writeTimes s). w \<le> lastCommandTime s) \<and> lastCommandTime s + 150 \<le> due"
  shows "paced (suspend i a s)"
proof (rule pacedI)
  have f: "minCommandDelay (suspend i a s) = minCommandDelay s" "now (suspend i a s) = now s"
    "writeTimes (suspend i a s) = writeTimes s" "lastCommandTime (suspend i a s) = lastCommandTime s"
    by (simp_all add: suspend_def writeTimes_def)
  show "minCommandDelay (suspend i a s) = 150" using b(1) by (simp add: f)
  show "\<forall>w\<in>set (writeTimes (suspend i a s)). w \<le> now (suspend i a s)" using b(2) by (simp add: f)
  show "spaced 150 (writeTimes (suspend i a s))" using b(3) by (simp add: f)
  show "\<forall>w\<in>set (writeTimes (suspend i a s)). w \<le> lastCommandTime (suspend i a s)"
    if "\<forall>j<length (loops (suspend i a s)). loops (suspend i a s) ! j = Finished"
  proof -
    have "loops (suspend i a s) ! i = a" using h(1) by simp
    then show ?thesis using that a(1) h(1) by (metis length_list_update suspend_fields(5))
  qed
  show "(\<forall>w\<in>set (writeTimes (suspend i a s)). w \<le> lastCommandTime (suspend i a s))
      \<and> lastCommandTime (suspend i a s) + 150 \<le> due"
    if "j < length (loops (suspend i a s))" "loops (suspend i a s) ! j = AwaitDelay e' due" for j e' due
  proof -
    have 1: "(loops s)[i := a] ! j = AwaitDelay e' due" using that(2) by simp
    have 2: "j < length ((loops s)[i := a])" using that(1) by simp
    have "(loops s)[i := a] ! j = a"
      using only_activation [OF h(1) h(2) 2] 1 by simp
    then have "a = AwaitDelay e' due" using 1 by simp
    then have "(\<forall>w\<in>set (writeTimes s). w \<le> lastCommandTime s) \<and> lastCommandTime s + 150 \<le> due"
      by (rule a(2))
    then show ?thesis unfolding f .
  qed
qed

lemma drain_paced:
  assumes h: "i < length (loops s)" "\<forall>j<length (loops s). j \<noteq> i \<longrightarrow> loops s ! j = Finished"
    and b: "minCommandDelay s = 150" "\<forall>w\<in>set (writeTimes s). w \<le> now s" "spaced 150 (writeTimes s)"
    and l: "\<forall>w\<in>set (writeTimes s). w \<le> lastCommandTime s"
  shows "paced (drain i s)"
proof (cases "commandQueue s")
  case Nil
  let ?s0 = "s\<lparr> isProcessingQueue := False \<rparr>"
  have d: "drain i s = suspend i Finished ?s0"
    using Nil by (simp add: drain_def)
  show ?thesis
  proof (rule pacedI)
    have f: "minCommandDelay (drain i s) = minCommandDelay s" "now (drain i s) = now s"
      "writeTimes (drain i s) = writeTimes s" "lastCommandTime (drain i s) = lastCommandTime s"
      "loops (drain i s) = (loops s)[i := Finished]"
      by (simp_all add: d suspend_def writeTimes_def)
    show "minCommandDelay (drain i s) = 150" using b(1) by (simp add: f)
    show "\<forall>w\<in>set (writeTimes (drain i s)). w \<le> now (drain i s)" using b(2) by (simp add: f)
    show "spaced 150 (writeTimes (drain i s))" using b(3) by (simp add: f)
    show "\<forall>w\<in>set (writeTimes (drain i s)). w \<le> lastCommandTime (drain i s)"
      if "\<forall>j<length (loops (drain i s)). loops (drain i s) ! j = Finished"
      using l by (simp add: f)
    show "(\<forall>w\<in>set (writeTimes (drain i s)). w \<le> lastCommandTime (drain i s))
        \<and> lastCommandTime (drain i s) + 150 \<le> due"
      if "j < length (loops (drain i s))" "loops (drain i s) ! j = AwaitDelay e' due" for j e' due
    proof -
      have 1: "(loops s)[i := Finished] ! j = AwaitDelay e' due" using that(2) by (simp add: f)
      have 2: "j < length ((loops s)[i := Finished])" using that(1) by (simp add: f)
      have "(loops s)[i := Finished] ! j = Finished"
        using only_activation [OF h(1) h(2) 2] 1 by simp
      then show ?thesis using 1 by simp
    qed
  qed
next
  case (Cons e rest)
  let ?s1 = "s\<lparr> commandQueue := rest \<rparr>"
  let ?wait = "max 0 (150 - (now s - lastCommandTime s))"
  have h1: "i < length (loops ?s1)" "\<forall>j<length (loops ?s1). j \<noteq> i \<longrightarrow> loops ?s1 ! j = Finished"
    using h by simp_all
  have b1: "minCommandDelay ?s1 = 150" "\<forall>w\<in>set (writeTimes ?s1). w \<le> now ?s1" "spaced 150 (writeTimes ?s1)"
    using b by (simp_all add: writeTimes_def)
  have l1: "\<forall>w\<in>set (writeTimes ?s1). w \<le> lastCommandTime ?s1"
    using l by (simp add: writeTimes_def)
  show ?thesis
  proof (cases "?wait > 0")
    case True
    then have d: "drain i s = suspend i (AwaitDelay e (now s + ?wait)) ?s1"
      using Cons b(1) by (simp add: drain_def Let_def)
    have due: "lastCommandTime ?s1 + 150 \<le> now s + ?wait"
      using True by simp
    show ?thesis
      unfolding d
    proof (rule suspend_paced [OF h1 b1])
      show "AwaitDelay e (now s + ?wait) \<noteq> Finished" by simp
      show "(\<forall>w\<in>set (writeTimes ?s1). w \<le> lastCommandTime ?s1) \<and> lastCommandTime ?s1 + 150 \<le> due"
        if "AwaitDelay e (now s + ?wait) = AwaitDelay e' due" for e' due
        using that l1 due by simp
    qed
  next
    case False
    then have d: "drain i s = transmit i e ?s1"
      using Cons b(1) by (simp add: drain_def Let_def)
    have "\<forall>w\<in>set (writeTimes ?s1). w + 150 \<le> now ?s1"
    proof
      fix w assume "w \<in> set (writeTimes ?s1)"
      then have "w \<le> lastCommandTime s" using l1 by simp
      moreover have "lastCommandTime s + 150 \<le> now s" using False by simp
      ultimately show "w + 150 \<le> now ?s1" by simp
    qed
    then show ?thesis unfolding d by (rule transmit_paced [OF h1 b1])
  qed
qed

lemma paced_same:
  assumes "paced s" "minCommandDelay s' = minCommandDelay s" "now s' = now s" "written s' = written s"
    "lastCommandTime s' = lastCommandTime s" "loops s' = loops s"
  shows "paced s'"
  using assms by (simp add: paced_def writeTimes_def)

lemma paced_base:
  "paced s \<Longrightarrow> minCommandDelay s = 150 \<and> (\<forall>w\<in>set (writeTimes s). w \<le> now s) \<and> spaced 150 (writeTimes s)"
  by (simp add: paced_def)

lemma paced_idle:
  "paced s \<Longrightarrow> \<forall>j<length (loops s). loops s ! j = Finished \<Longrightarrow> \<forall>w\<in>set (writeTimes s). w \<le> lastCommandTime s"
  by (simp add: paced_def)

lemma paced_delay:
  "paced s \<Longrightarrow> j < length (loops s) \<Longrightarrow> loops s ! j = AwaitDelay e due \<Longrightarrow>
     (\<forall>w\<in>set (writeTimes s). w \<le> lastCommandTime s) \<and> lastCommandTime s + 150 \<le> due"
  unfolding paced_def by blast

lemma elapse_paced:
  assumes "paced s"
  shows "paced (s\<lparr> now := now s + int d \<rparr>)"
proof -
  have "\<forall>w\<in>set (writeTimes s). w \<le> now s + int d"
    using paced_base [OF assms] by fastforce
  then show ?thesis
    using assms unfolding paced_def writeTimes_def by simp
qed


lemma check_paced:
  assumes b: "busy s i e" and p: "paced s"
    and r: "list_all (\<lambda>p. isResolved (snd p)) (settled (check i e start s))"
  shows "paced (check i e start s)"
proof -
  have h: "i < length (loops s)" "\<forall>j<length (loops s). j \<noteq> i \<longrightarrow> loops s ! j = Finished"
    using b by (simp_all add: busy_def)
  note base = paced_base [OF p]
  show ?thesis
  proof (cases "includesStr (buffer s) ''>''")
    case True
    let ?s1 = "settle (hdl e) (Resolved (trim (removeFirst ''>'' (buffer s)))) (s\<lparr> lastCommandTime := now s \<rparr>)"
    have c: "check i e start s = drain i ?s1"
      using True by (simp add: check_def)
    have f: "loops ?s1 = loops s" "minCommandDelay ?s1 = minCommandDelay s" "now ?s1 = now s"
      "writeTimes ?s1 = writeTimes s" "lastCommandTime ?s1 = now s"
      by (simp_all add: settle_def writeTimes_def)
    show ?thesis
      unfolding c
      by (rule drain_paced) (use h base in \<open>simp_all add: f\<close>)
  next
    case False
    show ?thesis
    proof (cases "now s - start > timeout e")
      case True
      then have c: "check i e start s = drain i (settle (hdl e) (Rejected ''Timeout waiting for response'') s)"
        using False by (simp add: check_def)
      have "settled (check i e start s) = settled s @ [(hdl e, Rejected ''Timeout waiting for response'')]"
        unfolding c by (simp add: settle_def)
      then show ?thesis using r by simp
    next
      case F2: False
      then have c: "check i e start s = suspend i (AwaitResponse e start (now s + 50)) s"
        using False by (simp add: check_def)
      show ?thesis
        unfolding c
        by (rule suspend_paced) (use h base in simp_all)
    qed
  qed
qed

lemma step_paced:
  assumes "fifo s" and p: "paced s" and "ev \<noteq> Disconnect"
    and r: "list_all (\<lambda>p. isResolved (snd p)) (settled (step ev s))"
  shows "paced (step ev s)"
proof -
  note base = paced_base [OF p]
  from assms(1) consider (q) "quiet s" | (b) i e where "busy s i e"
    by (auto simp: fifo_def)
  then show ?thesis
  proof cases
    case q
    have fin: "\<forall>j<length (loops s). loops s ! j = Finished" using q by (simp add: quiet_def)
    show ?thesis
    proof (cases ev)
      case (SendCommand c t)
      let ?new = "\<lparr> cmd = c, hdl = promises s, timeout = t \<rparr>"
      let ?s2 = "s\<lparr> commandQueue := commandQueue s @ [?new], promises := promises s + 1,
                    isProcessingQueue := True, loops := loops s @ [Finished] \<rparr>"
      have st: "step ev s = drain (length (loops s)) ?s2"
        using q by (simp add: SendCommand step_def sendCommand_def processQueue_def quiet_def)
      show ?thesis
        unfolding st
      proof (rule drain_paced)
        show "length (loops s) < length (loops ?s2)" by simp
        show "\<forall>j<length (loops ?s2). j \<noteq> length (loops s) \<longrightarrow> loops ?s2 ! j = Finished"
          using fin by (simp add: nth_append)
        show "minCommandDelay ?s2 = 150" using base by simp
        show "\<forall>w\<in>set (writeTimes ?s2). w \<le> now ?s2" using base by (simp add: writeTimes_def)
        show "spaced 150 (writeTimes ?s2)" using base by (simp add: writeTimes_def)
        show "\<forall>w\<in>set (writeTimes ?s2). w \<le> lastCommandTime ?s2"
          using paced_idle [OF p fin] by (simp add: writeTimes_def)
      qed
    next
      case (Elapse d)
      then show ?thesis using elapse_paced [OF p] by (simp add: step_def)
    next
      case Disconnect
      then show ?thesis using assms(3) by simp
    next
      case OpenSerial
      then show ?thesis by (simp add: step_def paced_same [OF p])
    next
      case OpenBLE
      then show ?thesis by (simp add: step_def paced_same [OF p])
    next
      case (Incoming d)
      then show ?thesis by (simp add: step_def paced_same [OF p])
    next
      case (CloseDone j)
      then show ?thesis by (simp add: step_def paced_same [OF p])
    next
      case (DelayOver j)
      then show ?thesis using p by (simp add: step_def quiet_activation [OF q])
    next
      case (WriteDone j err)
      then show ?thesis using p by (simp add: step_def quiet_activation [OF q])
    next
      case (Poll j)
      then show ?thesis using p by (simp add: step_def quiet_activation [OF q])
    qed
  next
    case b
    note act = busy_activation_self [OF b]
    have hd: "held (loops s ! i) = [e]" using b by (simp add: busy_def)
    have h: "i < length (loops s)" "\<forall>j<length (loops s). j \<noteq> i \<longrightarrow> loops s ! j = Finished"
      using b by (simp_all add: busy_def)
    show ?thesis
    proof (cases ev)
      case OpenSerial
      then show ?thesis by (simp add: step_def paced_same [OF p])
    next
      case OpenBLE
      then show ?thesis by (simp add: step_def paced_same [OF p])
    next
      case (Incoming d)
      then show ?thesis by (simp add: step_def paced_same [OF p])
    next
      case (CloseDone j)
      then show ?thesis by (simp add: step_def paced_same [OF p])
    next
      case (SendCommand c t)
      have "step ev s = s\<lparr> commandQueue := commandQueue s @ [\<lparr> cmd = c, hdl = promises s, timeout = t \<rparr>],
                            promises := promises s + 1 \<rparr>"
        using b by (simp add: SendCommand step_def sendCommand_def processQueue_def busy_def)
      then show ?thesis by (simp add: paced_same [OF p])
    next
      case (Elapse d)
      then show ?thesis using elapse_paced [OF p] by (simp add: step_def)
    next
      case Disconnect
      then show ?thesis using assms(3) by simp
    next
      case (DelayOver j)
      show ?thesis
      proof (cases "j = i")
        case False
        then show ?thesis using p busy_activation_other [OF b False] by (simp add: step_def DelayOver)
      next
        case True
        show ?thesis
        proof (cases "loops s ! i")
          case (AwaitDelay e' due)
          show ?thesis
          proof (cases "now s \<ge> due")
            case T2: True
            have st: "step ev s = transmit i e' s"
              using AwaitDelay act T2 by (simp add: step_def DelayOver True)
            have d: "(\<forall>w\<in>set (writeTimes s). w \<le> lastCommandTime s) \<and> lastCommandTime s + 150 \<le> due"
              by (rule paced_delay [OF p h(1) AwaitDelay])
            have "\<forall>w\<in>set (writeTimes s). w + 150 \<le> now s"
            proof
              fix w assume "w \<in> set (writeTimes s)"
              then have "w \<le> lastCommandTime s" using d by simp
              then show "w + 150 \<le> now s" using d T2 by simp
            qed
            then show ?thesis
              unfolding st using base by (intro transmit_paced [OF h]) simp_all
          next
            case False
            then show ?thesis using p AwaitDelay act by (simp add: step_def DelayOver True)
          qed
        qed (use p act in \<open>simp_all add: step_def DelayOver True\<close>)
      qed
    next
      case (WriteDone j err)
      show ?thesis
      proof (cases "j = i")
        case False
        then show ?thesis using p busy_activation_other [OF b False] by (simp add: step_def WriteDone)
      next
        case True
        show ?thesis
        proof (cases "loops s ! i")
          case (AwaitWrite e')
          show ?thesis
          proof (cases err)
            case None
            have st: "step ev s = suspend i (AwaitResponse e' (now s) (now s + 50)) s"
              using AwaitWrite act None by (simp add: step_def WriteDone True)
            show ?thesis
              unfolding st by (rule suspend_paced) (use h base in simp_all)
          next
            case (Some msg)
            have st: "step ev s = drain i (settle (hdl e') (Rejected msg) s)"
              using AwaitWrite act Some by (simp add: step_def WriteDone True)
            have "settled (step ev s) = settled s @ [(hdl e', Rejected msg)]"
              unfolding st by (simp add: settle_def)
            then show ?thesis using r by simp
          qed
        qed (use p act in \<open>simp_all add: step_def WriteDone True\<close>)
      qed
    next
      case (Poll j)
      show ?thesis
      proof (cases "j = i")
        case False
        then show ?thesis using p busy_activation_other [OF b False] by (simp add: step_def Poll)
      next
        case True
        show ?thesis
        proof (cases "loops s ! i")
          case (AwaitResponse e' start due)
          then have e': "e' = e" using hd by simp
          show ?thesis
          proof (cases "now s \<ge> due")
            case T2: True
            have st: "step ev s = check i e start s"
              using AwaitResponse act T2 e' by (simp add: step_def Poll True)
            show ?thesis
              unfolding st by (rule check_paced [OF b p]) (use r st in simp)
          next
            case False
            then show ?thesis using p AwaitResponse act by (simp add: step_def Poll True)
          qed
        qed (use p act in \<open>simp_all add: step_def Poll True\<close>)
      qed
    qed
  qed
qed


lemma step_settled_prefix: "prefix (settled s) (settled (step ev s))"
proof (cases ev)
  case (SendCommand c t)
  then show ?thesis by (simp add: step_def sendCommand_def processQueue_def)
next
  case (DelayOver j)
  then show ?thesis by (simp add: step_def split: activation.splits)
next
  case (WriteDone j err)
  then show ?thesis by (simp add: step_def settle_def split: activation.splits option.splits)
next
  case (Poll j)
  then show ?thesis by (simp add: step_def check_def settle_def split: activation.splits)
qed (simp_all add: step_def)

lemma run_settled_prefix: "prefix (settled s) (settled (run evs s))"
proof (induction evs arbitrary: s)
  case Nil
  then show ?case by (simp add: run_def)
next
  case (Cons ev evs)
  have "prefix (settled s) (settled (step ev s))" by (rule step_settled_prefix)
  also have "prefix (settled (step ev s)) (settled (run evs (step ev s)))" by (rule Cons.IH)
  finally show ?case by (simp add: run_def)
qed

lemma list_all_prefix: "prefix xs ys \<Longrightarrow> list_all P ys \<Longrightarrow> list_all P xs"
  by (auto simp: prefix_def)

lemma run_paced:
  assumes "fifo s" "paced s" "Disconnect \<notin> set evs"
    "list_all (\<lambda>p. isResolved (snd p)) (settled (run evs s))"
  shows "paced (run evs s)"
  using assms
proof (induction evs arbitrary: s)
  case Nil
  then show ?case by (simp add: run_def)
next
  case (Cons ev evs)
  have r: "run (ev # evs) s = run evs (step ev s)" by (simp add: run_def)
  have ne: "ev \<noteq> Disconnect" "Disconnect \<notin> set evs" using Cons.prems(3) by auto
  have all: "list_all (\<lambda>p. isResolved (snd p)) (settled (run evs (step ev s)))"
    using Cons.prems(4) by (simp add: r)
  have one: "list_all (\<lambda>p. isResolved (snd p)) (settled (step ev s))"
    by (rule list_all_prefix [OF run_settled_prefix all])
  have "paced (run evs (step ev s))"
    by (rule Cons.IH [OF step_fifo [OF Cons.prems(1) ne(1)] step_paced [OF Cons.prems(1,2) ne(1) one] ne(2) all])
  then show ?case by (simp add: r)
qed

lemma paced_start: "paced (OBDInterface t0)"
  by (simp add: paced_def OBDInterface_def writeTimes_def)

lemma writes_spaced_while_resolved:
  assumes "Disconnect \<notin> set evs"
    "list_all (\<lambda>p. isResolved (snd p)) (settled (run evs (OBDInterface t0)))"
  shows "spaced 150 (writeTimes (run evs (OBDInterface t0)))"
  using run_paced [OF fifo_start paced_start assms] by (simp add: paced_def)

section \<open>Polling modules: circuit breaker and feature detection\<close>

lemma pid_codes:
  "code RPM = ''010C''" "code SPEED = ''010D''" "code ENGINE_LOAD = ''0104''"
  "code TIMING_ADVANCE = ''010E''" "code INTAKE_TEMP = ''010F''" "code MAF_RATE = ''0110''"
  "code SHORT_FUEL_TRIM_1 = ''0106''" "code LONG_FUEL_TRIM_1 = ''0107''"
  "code O2_B1S1 = ''0114''" "code O2_B1S2 = ''0115''" "code BATTERY = ''0142''"
  by (simp_all add: pid_defs)


lemmas poll_defs = session_def fetchData_def resume_def loaded_def newCalls_def canSend_def
  obdConnected_def dash_def raising_def Let_def pid_codes

lemmas timing_defs = timing_op_def timing_tick_def timing_update_def timing_fetchData_def
  timing_blocks_def timing_rest_def timing_shutdown_def TimingApp_def

lemmas emissions_defs = emissions_op_def emissions_tick_def emissions_update_def emissions_fetchData_def
  emissions_blocks_def emissions_rest_def emissions_shutdown_def EmissionsApp_def

lemmas engine_defs = engine_op_def engine_tick_def engine_update_def engine_fetchData_def
  engine_blocks_def engine_rest_def engine_shutdown_def EngineApp_def

lemmas battery_defs = battery_call_def battery_op_def battery_tick_def battery_update_def fetchVoltage_def
  quickPoll_def battery_blocks_def battery_rest_def battery_shutdown_def BatteryApp_def remember_def
  analyzeRaises_def

lemma seek_keeps:
  assumes "P a" and "\<And>b a. b \<in> set bs \<Longrightarrow> P a \<Longrightarrow> P (onThrow b a)"
  shows "P (fst (seek ok bs n a))"
  using assms
proof (induction bs arbitrary: n a)
  case Nil
  then show ?case by simp
next
  case (Cons b bs)
  have t: "P (onThrow b a)" using Cons.prems by simp
  have r: "\<And>b' a'. b' \<in> set bs \<Longrightarrow> P a' \<Longrightarrow> P (onThrow b' a')" using Cons.prems(2) by simp
  show ?case
    using Cons.IH [OF Cons.prems(1) r] Cons.IH [OF t r] Cons.prems(1) by (cases ok) simp_all
qed

lemma seek_found:
  "seek ok bs n a = (a', Some (j, b)) \<Longrightarrow> b \<in> set bs \<and> flagSet b a'"
proof (induction bs arbitrary: n a)
  case Nil
  then show ?case by simp
next
  case (Cons b' bs)
  then show ?case by (auto split: if_splits)
qed

lemma quietFor_refl: "quietFor c st st"
  by (simp add: quietFor_def)

lemma quietFor_same: "calls st' = calls st \<Longrightarrow> quietFor c st st'"
  by (simp add: quietFor_def)

lemma quietFor_trans: "quietFor c st st' \<Longrightarrow> quietFor c st' st'' \<Longrightarrow> quietFor c st st''"
  by (auto simp: quietFor_def)

lemma quietFor_newCalls: "quietFor c st st' \<Longrightarrow> c \<notin> set (newCalls st st')"
  by (auto simp: quietFor_def newCalls_def)

lemma fetchData_latch:
  assumes P: "P (self st)"
    and t: "\<And>b a. b \<in> set blocks \<Longrightarrow> P a \<Longrightarrow> P (onThrow b a)"
    and r: "\<And>k e d a. P a \<Longrightarrow> P (rest k e d a)"
    and g: "\<And>b a. b \<in> set blocks \<Longrightarrow> code (pidOf b) = c \<Longrightarrow> flagSet b a \<Longrightarrow> \<not> P a"
  shows "P (self (fetchData blocks rest e n data k st))
       \<and> quietFor c st (fetchData blocks rest e n data k st)"
proof -
  obtain a' res where sk: "seek (canSend e) (drop n blocks) n (self st) = (a', res)"
    by (cases "seek (canSend e) (drop n blocks) n (self st)")
  have sub: "\<And>b. b \<in> set (drop n blocks) \<Longrightarrow> b \<in> set blocks" by (rule in_set_dropD)
  have "P (fst (seek (canSend e) (drop n blocks) n (self st)))"
  proof (rule seek_keeps [where P = P and a = "self st" and bs = "drop n blocks"])
    show "P (self st)" by (rule P)
    show "P (onThrow b a)" if "b \<in> set (drop n blocks)" "P a" for b a
      using t [OF sub [OF that(1)] that(2)] .
  qed
  then have a': "P a'" by (simp add: sk)
  show ?thesis
  proof (cases res)
    case None
    then have "fetchData blocks rest e n data k st = st\<lparr> self := rest k e data a' \<rparr>"
      by (simp add: fetchData_def sk)
    then show ?thesis using r [OF a'] by (simp add: quietFor_def)
  next
    case (Some jb)
    obtain j b where jb: "jb = (j, b)" by (cases jb)
    have f: "b \<in> set (drop n blocks)" "flagSet b a'"
      using seek_found [of "canSend e" "drop n blocks" n "self st" a' j b] sk Some jb by simp_all
    have nc: "code (pidOf b) \<noteq> c" using g [OF sub [OF f(1)] _ f(2)] a' by blast
    have "fetchData blocks rest e n data k st =
        st\<lparr> self := a',
            tasks := tasks st @ [\<lparr> ticket = length (calls st), pc = j, got = data, caller = k \<rparr>],
            calls := calls st @ [code (pidOf b)] \<rparr>"
      by (simp add: fetchData_def sk Some jb)
    then show ?thesis using a' nc by (simp add: quietFor_def)
  qed
qed

lemma resume_latch:
  assumes P: "P (self st)"
    and t: "\<And>b a. b \<in> set blocks \<Longrightarrow> P a \<Longrightarrow> P (onThrow b a)"
    and y: "\<And>b v a d. b \<in> set blocks \<Longrightarrow> P a \<Longrightarrow> P (fst (onReply b v (a, d)))"
    and r: "\<And>k e d a. P a \<Longrightarrow> P (rest k e d a)"
    and g: "\<And>b a. b \<in> set blocks \<Longrightarrow> code (pidOf b) = c \<Longrightarrow> flagSet b a \<Longrightarrow> \<not> P a"
  shows "P (self (resume blocks rest q outcome e st))
       \<and> quietFor c st (resume blocks rest q outcome e st)"
proof (cases "find (\<lambda>t. ticket t = q) (tasks st)")
  case None
  then show ?thesis using P by (simp add: resume_def quietFor_refl)
next
  case (Some u)
  show ?thesis
  proof (cases "drop (pc u) blocks")
    case Nil
    then show ?thesis using P Some by (simp add: resume_def quietFor_refl)
  next
    case (Cons b later)
    have b: "b \<in> set blocks"
      using Cons in_set_dropD [of b "pc u" blocks] by simp
    obtain a d where ad: "(case outcome of
          Some raw \<Rightarrow> onReply b (parse (pidOf b) (parseOBDResponse (Some raw) (echoOf b))) (self st, got u)
        | None \<Rightarrow> (onThrow b (self st), got u)) = (a, d)"
      by (cases "(case outcome of
          Some raw \<Rightarrow> onReply b (parse (pidOf b) (parseOBDResponse (Some raw) (echoOf b))) (self st, got u)
        | None \<Rightarrow> (onThrow b (self st), got u))")
    have a: "P a"
    proof (cases outcome)
      case None
      then show ?thesis using ad t [OF b P] by simp
    next
      case (Some raw)
      then show ?thesis
        using ad y [OF b P, of "parse (pidOf b) (parseOBDResponse (Some raw) (echoOf b))" "got u"] by simp
    qed
    let ?st1 = "st\<lparr> self := a, tasks := filter (\<lambda>w. ticket w \<noteq> q) (tasks st) \<rparr>"
    have eq: "resume blocks rest q outcome e st = fetchData blocks rest e (Suc (pc u)) d (caller u) ?st1"
      using Some Cons ad by (simp add: resume_def)
    have "P (self ?st1)" using a by simp
    then have "P (self (fetchData blocks rest e (Suc (pc u)) d (caller u) ?st1))
        \<and> quietFor c ?st1 (fetchData blocks rest e (Suc (pc u)) d (caller u) ?st1)"
      by (rule fetchData_latch [where P = P and c = c and blocks = blocks and rest = rest]) (use t r g in blast)+
    then show ?thesis unfolding eq by (simp add: quietFor_def)
  qed
qed

lemma session_latch:
  assumes step: "\<And>ev st. P (self st) \<Longrightarrow> P (self (f ev st)) \<and> quietFor c st (f ev st)"
  shows "P (self st) \<Longrightarrow> P (self (session f ops st)) \<and> quietFor c st (session f ops st)"
proof (induction ops arbitrary: st)
  case Nil
  then show ?case by (simp add: session_def quietFor_refl)
next
  case (Cons ev ops)
  have 1: "P (self (f ev st))" "quietFor c st (f ev st)" using step [OF Cons.prems] by simp_all
  have 2: "P (self (session f ops (f ev st)))" "quietFor c (f ev st) (session f ops (f ev st))"
    using Cons.IH [OF 1(1)] by simp_all
  have r: "session f (ev # ops) st = session f ops (f ev st)" by (simp add: session_def)
  show ?case unfolding r using 2(1) quietFor_trans [OF 1(2) 2(2)] by simp
qed

lemma timing_op_latch:
  assumes P: "P (self st)"
    and s: "\<And>a a'. supported a' = supported a \<Longrightarrow> P a \<Longrightarrow> P a'"
    and t: "\<And>b a. b \<in> set timing_blocks \<Longrightarrow> P a \<Longrightarrow> P (onThrow b a)"
    and y: "\<And>b v a d. b \<in> set timing_blocks \<Longrightarrow> P a \<Longrightarrow> P (fst (onReply b v (a, d)))"
    and g: "\<And>b a. b \<in> set timing_blocks \<Longrightarrow> code (pidOf b) = c \<Longrightarrow> flagSet b a \<Longrightarrow> \<not> P a"
  shows "P (self (timing_op ev st)) \<and> quietFor c st (timing_op ev st)"
proof -
  have r: "P (timing_rest k e d a)" if "P a" for k e d a
    by (rule s [OF _ that]) (simp add: timing_rest_def)
  have f: "P (self (fetchData timing_blocks timing_rest e n d k st))
      \<and> quietFor c st (fetchData timing_blocks timing_rest e n d k st)" for e n d k
    by (rule fetchData_latch [where P = P and c = c and blocks = timing_blocks and rest = timing_rest])
       (use P t r g in blast)+
  show ?thesis
  proof (cases ev)
    case (Tick e)
    have "timing_tick e st = st
        \<or> timing_tick e st = st\<lparr> self := (self st)\<lparr> consecutiveErrors := consecutiveErrors (self st) + 1 \<rparr> \<rparr>
        \<or> timing_tick e st = fetchData timing_blocks timing_rest e 0 \<lparr> d_timing = None, d_load = None \<rparr> () st"
      by (simp add: timing_tick_def timing_update_def timing_fetchData_def Let_def)
    moreover have "P (self (st\<lparr> self := (self st)\<lparr> consecutiveErrors := consecutiveErrors (self st) + 1 \<rparr> \<rparr>))"
      by (simp, rule s [OF _ P]) simp
    ultimately show ?thesis
      using P f by (auto simp: timing_op_def Tick quietFor_def)
  next
    case (Settled q outcome e)
    have "P (self (resume timing_blocks timing_rest q outcome e st))
        \<and> quietFor c st (resume timing_blocks timing_rest q outcome e st)"
      by (rule resume_latch [where P = P and c = c and blocks = timing_blocks and rest = timing_rest])
         (use P t y r g in blast)+
    then show ?thesis by (simp add: timing_op_def Settled)
  next
    case Activate
    have "P (self (st\<lparr> self := (self st)\<lparr> isActive := True \<rparr> \<rparr>))"
      by (simp, rule s [OF _ P]) simp
    then show ?thesis by (simp add: timing_op_def Activate quietFor_def)
  next
    case Deactivate
    have "P (self (st\<lparr> self := (self st)\<lparr> isActive := False \<rparr> \<rparr>))"
      by (simp, rule s [OF _ P]) simp
    then show ?thesis by (simp add: timing_op_def Deactivate quietFor_def)
  next
    case Shutdown
    have "P (self (st\<lparr> self := timing_shutdown (self st) \<rparr>))"
      by (simp, rule s [OF _ P]) (simp add: timing_shutdown_def)
    then show ?thesis by (simp add: timing_op_def Shutdown quietFor_def)
  qed
qed

lemma emissions_op_latch:
  assumes P: "P (self st)"
    and s: "\<And>a a'. supported a' = supported a \<Longrightarrow> P a \<Longrightarrow> P a'"
    and t: "\<And>b a. b \<in> set emissions_blocks \<Longrightarrow> P a \<Longrightarrow> P (onThrow b a)"
    and y: "\<And>b v a d. b \<in> set emissions_blocks \<Longrightarrow> P a \<Longrightarrow> P (fst (onReply b v (a, d)))"
    and g: "\<And>b a. b \<in> set emissions_blocks \<Longrightarrow> code (pidOf b) = c \<Longrightarrow> flagSet b a \<Longrightarrow> \<not> P a"
  shows "P (self (emissions_op ev st)) \<and> quietFor c st (emissions_op ev st)"
proof -
  have r: "P (emissions_rest k e d a)" if "P a" for k e d a
    by (rule s [OF _ that]) (simp add: emissions_rest_def)
  have f: "P (self (fetchData emissions_blocks emissions_rest e n d k st))
      \<and> quietFor c st (fetchData emissions_blocks emissions_rest e n d k st)" for e n d k
    by (rule fetchData_latch [where P = P and c = c and blocks = emissions_blocks and rest = emissions_rest])
       (use P t r g in blast)+
  show ?thesis
  proof (cases ev)
    case (Tick e)
    have "emissions_tick e st = st
        \<or> emissions_tick e st = st\<lparr> self := (self st)\<lparr> consecutiveErrors := consecutiveErrors (self st) + 1 \<rparr> \<rparr>
        \<or> emissions_tick e st = fetchData emissions_blocks emissions_rest e 0
             \<lparr> d_stft = None, d_ltft = None, d_o2s1 = None, d_o2s2 = None, d_maf = None \<rparr> () st"
      by (simp add: emissions_tick_def emissions_update_def emissions_fetchData_def Let_def)
    moreover have "P (self (st\<lparr> self := (self st)\<lparr> consecutiveErrors := consecutiveErrors (self st) + 1 \<rparr> \<rparr>))"
      by (simp, rule s [OF _ P]) simp
    ultimately show ?thesis
      using P f by (auto simp: emissions_op_def Tick quietFor_def)
  next
    case (Settled q outcome e)
    have "P (self (resume emissions_blocks emissions_rest q outcome e st))
        \<and> quietFor c st (resume emissions_blocks emissions_rest q outcome e st)"
      by (rule resume_latch [where P = P and c = c and blocks = emissions_blocks and rest = emissions_rest])
         (use P t y r g in blast)+
    then show ?thesis by (simp add: emissions_op_def Settled)
  next
    case Activate
    have "P (self (st\<lparr> self := (self st)\<lparr> isActive := True \<rparr> \<rparr>))"
      by (simp, rule s [OF _ P]) simp
    then show ?thesis by (simp add: emissions_op_def Activate quietFor_def)
  next
    case Deactivate
    have "P (self (st\<lparr> self := (self st)\<lparr> isActive := False \<rparr> \<rparr>))"
      by (simp, rule s [OF _ P]) simp
    then show ?thesis by (simp add: emissions_op_def Deactivate quietFor_def)
  next
    case Shutdown
    have "P (self (st\<lparr> self := emissions_shutdown (self st) \<rparr>))"
      by (simp, rule s [OF _ P]) (simp add: emissions_shutdown_def)
    then show ?thesis by (simp add: emissions_op_def Shutdown quietFor_def)
  qed
qed

lemma engine_op_latch:
  assumes P: "P (self st)"
    and s: "\<And>a a'. supported a' = supported a \<Longrightarrow> P a \<Longrightarrow> P a'"
    and t: "\<And>b a. b \<in> set engine_blocks \<Longrightarrow> P a \<Longrightarrow> P (onThrow b a)"
    and y: "\<And>b v a d. b \<in> set engine_blocks \<Longrightarrow> P a \<Longrightarrow> P (fst (onReply b v (a, d)))"
    and g: "\<And>b a. b \<in> set engine_blocks \<Longrightarrow> code (pidOf b) = c \<Longrightarrow> flagSet b a \<Longrightarrow> \<not> P a"
  shows "P (self (engine_op ev st)) \<and> quietFor c st (engine_op ev st)"
proof -
  have r: "P (engine_rest k e d a)" if "P a" for k e d a
    by (rule s [OF _ that]) (simp add: engine_rest_def)
  have f: "P (self (fetchData engine_blocks engine_rest e n d k st))
      \<and> quietFor c st (fetchData engine_blocks engine_rest e n d k st)" for e n d k
    by (rule fetchData_latch [where P = P and c = c and blocks = engine_blocks and rest = engine_rest])
       (use P t r g in blast)+
  show ?thesis
  proof (cases ev)
    case (Tick e)
    have "engine_tick e st = st
        \<or> engine_tick e st = st\<lparr> self := (self st)\<lparr> consecutiveErrors := consecutiveErrors (self st) + 1 \<rparr> \<rparr>
        \<or> engine_tick e st = fetchData engine_blocks engine_rest e 0
             \<lparr> e_rpm = None, e_speed = None, e_load = None, e_timing = None, e_iat = None, e_maf = None \<rparr>
             (engineViewVisible e) st"
      by (simp add: engine_tick_def engine_update_def engine_fetchData_def Let_def)
    moreover have "P (self (st\<lparr> self := (self st)\<lparr> consecutiveErrors := consecutiveErrors (self st) + 1 \<rparr> \<rparr>))"
      by (simp, rule s [OF _ P]) simp
    ultimately show ?thesis
      using P f by (auto simp: engine_op_def Tick quietFor_def)
  next
    case (Settled q outcome e)
    have "P (self (resume engine_blocks engine_rest q outcome e st))
        \<and> quietFor c st (resume engine_blocks engine_rest q outcome e st)"
      by (rule resume_latch [where P = P and c = c and blocks = engine_blocks and rest = engine_rest])
         (use P t y r g in blast)+
    then show ?thesis by (simp add: engine_op_def Settled)
  next
    case Activate
    have "P (self (st\<lparr> self := (self st)\<lparr> isActive := True \<rparr> \<rparr>))"
      by (simp, rule s [OF _ P]) simp
    then show ?thesis by (simp add: engine_op_def Activate quietFor_def)
  next
    case Deactivate
    have "P (self (st\<lparr> self := (self st)\<lparr> isActive := False \<rparr> \<rparr>))"
      by (simp, rule s [OF _ P]) simp
    then show ?thesis by (simp add: engine_op_def Deactivate quietFor_def)
  next
    case Shutdown
    have "P (self (st\<lparr> self := engine_shutdown (self st) \<rparr>))"
      by (simp, rule s [OF _ P]) (simp add: engine_shutdown_def)
    then show ?thesis by (simp add: engine_op_def Shutdown quietFor_def)
  qed
qed

lemma battery_op_latch:
  assumes P: "P (self st)"
    and s: "\<And>a a'. supported a' = supported a \<Longrightarrow> P a \<Longrightarrow> P a'"
    and t: "\<And>b a. b \<in> set battery_blocks \<Longrightarrow> P a \<Longrightarrow> P (onThrow b a)"
    and y: "\<And>b v a d. b \<in> set battery_blocks \<Longrightarrow> P a \<Longrightarrow> P (fst (onReply b v (a, d)))"
    and g: "\<And>b a. b \<in> set battery_blocks \<Longrightarrow> code (pidOf b) = c \<Longrightarrow> flagSet b a \<Longrightarrow> \<not> P a"
  shows "P (self (battery_op ev st)) \<and> quietFor c st (battery_op ev st)"
proof -
  have r: "P (battery_rest k e d a)" if "P a" for k e d a
    by (rule s [OF _ that]) (simp add: battery_rest_def split: origin.splits)
  have f: "P (self (fetchData battery_blocks battery_rest e n d k st))
      \<and> quietFor c st (fetchData battery_blocks battery_rest e n d k st)" for e n d k
    by (rule fetchData_latch [where P = P and c = c and blocks = battery_blocks and rest = battery_rest])
       (use P t r g in blast)+
  show ?thesis
  proof (cases ev)
    case (Tick e)
    have "battery_tick e st = st
        \<or> battery_tick e st = st\<lparr> self := (self st)\<lparr> consecutiveErrors := consecutiveErrors (self st) + 1 \<rparr> \<rparr>
        \<or> battery_tick e st = fetchData battery_blocks battery_rest e 0 None FromUpdate st"
      by (simp add: battery_tick_def battery_update_def fetchVoltage_def Let_def)
    moreover have "P (self (st\<lparr> self := (self st)\<lparr> consecutiveErrors := consecutiveErrors (self st) + 1 \<rparr> \<rparr>))"
      by (simp, rule s [OF _ P]) simp
    ultimately show ?thesis
      using P f by (auto simp: battery_op_def Tick quietFor_def)
  next
    case (Settled q outcome e)
    have "P (self (resume battery_blocks battery_rest q outcome e st))
        \<and> quietFor c st (resume battery_blocks battery_rest q outcome e st)"
      by (rule resume_latch [where P = P and c = c and blocks = battery_blocks and rest = battery_rest])
         (use P t y r g in blast)+
    then show ?thesis by (simp add: battery_op_def Settled)
  next
    case Activate
    have "P (self (st\<lparr> self := (self st)\<lparr> isActive := True \<rparr> \<rparr>))"
      by (simp, rule s [OF _ P]) simp
    then show ?thesis by (simp add: battery_op_def Activate quietFor_def)
  next
    case Deactivate
    have "P (self (st\<lparr> self := (self st)\<lparr> isActive := False \<rparr> \<rparr>))"
      by (simp, rule s [OF _ P]) simp
    then show ?thesis by (simp add: battery_op_def Deactivate quietFor_def)
  next
    case Shutdown
    have "P (self (st\<lparr> self := battery_shutdown (self st) \<rparr>))"
      by (simp, rule s [OF _ P]) (simp add: battery_shutdown_def)
    then show ?thesis by (simp add: battery_op_def Shutdown quietFor_def)
  qed
qed

lemma battery_call_latch:
  assumes P: "P (self st)"
    and s: "\<And>a a'. supported a' = supported a \<Longrightarrow> P a \<Longrightarrow> P a'"
    and t: "\<And>b a. b \<in> set battery_blocks \<Longrightarrow> P a \<Longrightarrow> P (onThrow b a)"
    and y: "\<And>b v a d. b \<in> set battery_blocks \<Longrightarrow> P a \<Longrightarrow> P (fst (onReply b v (a, d)))"
    and g: "\<And>b a. b \<in> set battery_blocks \<Longrightarrow> code (pidOf b) = c \<Longrightarrow> flagSet b a \<Longrightarrow> \<not> P a"
  shows "P (self (battery_call cl st)) \<and> quietFor c st (battery_call cl st)"
proof (cases cl)
  case (Op opn)
  have "P (self (battery_op opn st)) \<and> quietFor c st (battery_op opn st)"
    by (rule battery_op_latch [where P = P and c = c]) (use P s t y g in blast)+
  then show ?thesis by (simp add: battery_call_def Op)
next
  case (QuickPoll e)
  have r: "P (battery_rest k e d a)" if "P a" for k e d a
    by (rule s [OF _ that]) (simp add: battery_rest_def split: origin.splits)
  have "P (self (fetchData battery_blocks battery_rest e 0 None FromQuickPoll st))
      \<and> quietFor c st (fetchData battery_blocks battery_rest e 0 None FromQuickPoll st)"
    by (rule fetchData_latch [where P = P and c = c and blocks = battery_blocks and rest = battery_rest])
       (use P t r g in blast)+
  then show ?thesis using P by (simp add: battery_call_def QuickPoll quickPoll_def fetchVoltage_def quietFor_refl)
qed

lemma engine_load_latch:
  assumes "\<not> engine_flags.load (supported (self st))"
  shows "\<not> engine_flags.load (supported (self (session engine_op ops st)))
       \<and> ''0104'' \<notin> set (newCalls st (session engine_op ops st))"
proof -
  let ?P = "\<lambda>a. \<not> engine_flags.load (supported a)"
  have "?P (self (engine_op ev st')) \<and> quietFor ''0104'' st' (engine_op ev st')" if "?P (self st')" for ev st'
    by (rule engine_op_latch [where P = ?P and c = "''0104''"])
       (use that in \<open>auto simp: engine_blocks_def pid_defs\<close>)
  then have "?P (self (session engine_op ops st)) \<and> quietFor ''0104'' st (session engine_op ops st)"
    using assms by (rule session_latch [where P = ?P and c = "''0104''" and f = engine_op])
  then show ?thesis by (simp add: quietFor_newCalls)
qed

lemma engine_timing_latch:
  assumes "\<not> engine_flags.timing (supported (self st))"
  shows "\<not> engine_flags.timing (supported (self (session engine_op ops st)))
       \<and> ''010E'' \<notin> set (newCalls st (session engine_op ops st))"
proof -
  let ?P = "\<lambda>a. \<not> engine_flags.timing (supported a)"
  have "?P (self (engine_op ev st')) \<and> quietFor ''010E'' st' (engine_op ev st')" if "?P (self st')" for ev st'
    by (rule engine_op_latch [where P = ?P and c = "''010E''"])
       (use that in \<open>auto simp: engine_blocks_def pid_defs\<close>)
  then have "?P (self (session engine_op ops st)) \<and> quietFor ''010E'' st (session engine_op ops st)"
    using assms by (rule session_latch [where P = ?P and c = "''010E''" and f = engine_op])
  then show ?thesis by (simp add: quietFor_newCalls)
qed

lemma engine_iat_latch:
  assumes "\<not> engine_flags.iat (supported (self st))"
  shows "\<not> engine_flags.iat (supported (self (session engine_op ops st)))
       \<and> ''010F'' \<notin> set (newCalls st (session engine_op ops st))"
proof -
  let ?P = "\<lambda>a. \<not> engine_flags.iat (supported a)"
  have "?P (self (engine_op ev st')) \<and> quietFor ''010F'' st' (engine_op ev st')" if "?P (self st')" for ev st'
    by (rule engine_op_latch [where P = ?P and c = "''010F''"])
       (use that in \<open>auto simp: engine_blocks_def pid_defs\<close>)
  then have "?P (self (session engine_op ops st)) \<and> quietFor ''010F'' st (session engine_op ops st)"
    using assms by (rule session_latch [where P = ?P and c = "''010F''" and f = engine_op])
  then show ?thesis by (simp add: quietFor_newCalls)
qed

lemma engine_maf_latch:
  assumes "\<not> engine_flags.maf (supported (self st))"
  shows "\<not> engine_flags.maf (supported (self (session engine_op ops st)))
       \<and> ''0110'' \<notin> set (newCalls st (session engine_op ops st))"
proof -
  let ?P = "\<lambda>a. \<not> engine_flags.maf (supported a)"
  have "?P (self (engine_op ev st')) \<and> quietFor ''0110'' st' (engine_op ev st')" if "?P (self st')" for ev st'
    by (rule engine_op_latch [where P = ?P and c = "''0110''"])
       (use that in \<open>auto simp: engine_blocks_def pid_defs\<close>)
  then have "?P (self (session engine_op ops st)) \<and> quietFor ''0110'' st (session engine_op ops st)"
    using assms by (rule session_latch [where P = ?P and c = "''0110''" and f = engine_op])
  then show ?thesis by (simp add: quietFor_newCalls)
qed

lemma timing_timing_latch:
  assumes "\<not> timing (supported (self st))"
  shows "\<not> timing (supported (self (session timing_op ops st)))
       \<and> ''010E'' \<notin> set (newCalls st (session timing_op ops st))"
proof -
  let ?P = "\<lambda>a. \<not> timing (supported a)"
  have "?P (self (timing_op ev st')) \<and> quietFor ''010E'' st' (timing_op ev st')" if "?P (self st')" for ev st'
    by (rule timing_op_latch [where P = ?P and c = "''010E''"])
       (use that in \<open>auto simp: timing_blocks_def pid_defs\<close>)
  then have "?P (self (session timing_op ops st)) \<and> quietFor ''010E'' st (session timing_op ops st)"
    using assms by (rule session_latch [where P = ?P and c = "''010E''" and f = timing_op])
  then show ?thesis by (simp add: quietFor_newCalls)
qed

lemma timing_load_latch:
  assumes "\<not> load (supported (self st))"
  shows "\<not> load (supported (self (session timing_op ops st)))
       \<and> ''0104'' \<notin> set (newCalls st (session timing_op ops st))"
proof -
  let ?P = "\<lambda>a. \<not> load (supported a)"
  have "?P (self (timing_op ev st')) \<and> quietFor ''0104'' st' (timing_op ev st')" if "?P (self st')" for ev st'
    by (rule timing_op_latch [where P = ?P and c = "''0104''"])
       (use that in \<open>auto simp: timing_blocks_def pid_defs\<close>)
  then have "?P (self (session timing_op ops st)) \<and> quietFor ''0104'' st (session timing_op ops st)"
    using assms by (rule session_latch [where P = ?P and c = "''0104''" and f = timing_op])
  then show ?thesis by (simp add: quietFor_newCalls)
qed

lemma emissions_stft1_latch:
  assumes "\<not> stft1 (supported (self st))"
  shows "\<not> stft1 (supported (self (session emissions_op ops st)))
       \<and> ''0106'' \<notin> set (newCalls st (session emissions_op ops st))"
proof -
  let ?P = "\<lambda>a. \<not> stft1 (supported a)"
  have "?P (self (emissions_op ev st')) \<and> quietFor ''0106'' st' (emissions_op ev st')" if "?P (self st')" for ev st'
    by (rule emissions_op_latch [where P = ?P and c = "''0106''"])
       (use that in \<open>auto simp: emissions_blocks_def pid_defs\<close>)
  then have "?P (self (session emissions_op ops st)) \<and> quietFor ''0106'' st (session emissions_op ops st)"
    using assms by (rule session_latch [where P = ?P and c = "''0106''" and f = emissions_op])
  then show ?thesis by (simp add: quietFor_newCalls)
qed

lemma emissions_ltft1_latch:
  assumes "\<not> ltft1 (supported (self st))"
  shows "\<not> ltft1 (supported (self (session emissions_op ops st)))
       \<and> ''0107'' \<notin> set (newCalls st (session emissions_op ops st))"
proof -
  let ?P = "\<lambda>a. \<not> ltft1 (supported a)"
  have "?P (self (emissions_op ev st')) \<and> quietFor ''0107'' st' (emissions_op ev st')" if "?P (self st')" for ev st'
    by (rule emissions_op_latch [where P = ?P and c = "''0107''"])
       (use that in \<open>auto simp: emissions_blocks_def pid_defs\<close>)
  then have "?P (self (session emissions_op ops st)) \<and> quietFor ''0107'' st (session emissions_op ops st)"
    using assms by (rule session_latch [where P = ?P and c = "''0107''" and f = emissions_op])
  then show ?thesis by (simp add: quietFor_newCalls)
qed

lemma emissions_o2s1_latch:
  assumes "\<not> o2s1 (supported (self st))"
  shows "\<not> o2s1 (supported (self (session emissions_op ops st)))
       \<and> ''0114'' \<notin> set (newCalls st (session emissions_op ops st))"
proof -
  let ?P = "\<lambda>a. \<not> o2s1 (supported a)"
  have "?P (self (emissions_op ev st')) \<and> quietFor ''0114'' st' (emissions_op ev st')" if "?P (self st')" for ev st'
    by (rule emissions_op_latch [where P = ?P and c = "''0114''"])
       (use that in \<open>auto simp: emissions_blocks_def pid_defs\<close>)
  then have "?P (self (session emissions_op ops st)) \<and> quietFor ''0114'' st (session emissions_op ops st)"
    using assms by (rule session_latch [where P = ?P and c = "''0114''" and f = emissions_op])
  then show ?thesis by (simp add: quietFor_newCalls)
qed

lemma emissions_o2s2_latch:
  assumes "\<not> o2s2 (supported (self st))"
  shows "\<not> o2s2 (supported (self (session emissions_op ops st)))
       \<and> ''0115'' \<notin> set (newCalls st (session emissions_op ops st))"
proof -
  let ?P = "\<lambda>a. \<not> o2s2 (supported a)"
  have "?P (self (emissions_op ev st')) \<and> quietFor ''0115'' st' (emissions_op ev st')" if "?P (self st')" for ev st'
    by (rule emissions_op_latch [where P = ?P and c = "''0115''"])
       (use that in \<open>auto simp: emissions_blocks_def pid_defs\<close>)
  then have "?P (self (session emissions_op ops st)) \<and> quietFor ''0115'' st (session emissions_op ops st)"
    using assms by (rule session_latch [where P = ?P and c = "''0115''" and f = emissions_op])
  then show ?thesis by (simp add: quietFor_newCalls)
qed

lemma emissions_maf_latch:
  assumes "\<not> maf (supported (self st))"
  shows "\<not> maf (supported (self (session emissions_op ops st)))
       \<and> ''0110'' \<notin> set (newCalls st (session emissions_op ops st))"
proof -
  let ?P = "\<lambda>a. \<not> maf (supported a)"
  have "?P (self (emissions_op ev st')) \<and> quietFor ''0110'' st' (emissions_op ev st')" if "?P (self st')" for ev st'
    by (rule emissions_op_latch [where P = ?P and c = "''0110''"])
       (use that in \<open>auto simp: emissions_blocks_def pid_defs\<close>)
  then have "?P (self (session emissions_op ops st)) \<and> quietFor ''0110'' st (session emissions_op ops st)"
    using assms by (rule session_latch [where P = ?P and c = "''0110''" and f = emissions_op])
  then show ?thesis by (simp add: quietFor_newCalls)
qed

lemma battery_supported_latch:
  assumes "\<not> supported (self st)"
  shows "\<not> supported (self (session battery_call cls st))
       \<and> ''0142'' \<notin> set (newCalls st (session battery_call cls st))"
proof -
  let ?P = "\<lambda>a. \<not> supported a"
  have "?P (self (battery_call ev st')) \<and> quietFor ''0142'' st' (battery_call ev st')" if "?P (self st')" for ev st'
    by (rule battery_call_latch [where P = ?P and c = "''0142''"])
       (use that in \<open>auto simp: battery_blocks_def pid_defs remember_def Let_def split: option.splits\<close>)
  then have "?P (self (session battery_call cls st)) \<and> quietFor ''0142'' st (session battery_call cls st)"
    using assms by (rule session_latch [where P = ?P and c = "''0142''" and f = battery_call])
  then show ?thesis by (simp add: quietFor_newCalls)
qed

lemma fetchData_grows: "prefix (calls st) (calls (fetchData blocks rest e n d k st))"
  by (simp add: fetchData_def split: prod.splits option.splits)

lemma resume_grows: "prefix (calls st) (calls (resume blocks rest q outcome e st))"
proof (cases "find (\<lambda>t. ticket t = q) (tasks st)")
  case None
  then show ?thesis by (simp add: resume_def)
next
  case (Some u)
  show ?thesis
  proof (cases "drop (pc u) blocks")
    case Nil
    then show ?thesis using Some by (simp add: resume_def)
  next
    case (Cons b later)
    obtain a d where ad: "(case outcome of
          Some raw \<Rightarrow> onReply b (parse (pidOf b) (parseOBDResponse (Some raw) (echoOf b))) (self st, got u)
        | None \<Rightarrow> (onThrow b (self st), got u)) = (a, d)"
      by (cases "(case outcome of
          Some raw \<Rightarrow> onReply b (parse (pidOf b) (parseOBDResponse (Some raw) (echoOf b))) (self st, got u)
        | None \<Rightarrow> (onThrow b (self st), got u))")
    let ?st1 = "st\<lparr> self := a, tasks := filter (\<lambda>w. ticket w \<noteq> q) (tasks st) \<rparr>"
    have eq: "resume blocks rest q outcome e st = fetchData blocks rest e (Suc (pc u)) d (caller u) ?st1"
      using Some Cons ad by (simp add: resume_def)
    have "prefix (calls ?st1) (calls (fetchData blocks rest e (Suc (pc u)) d (caller u) ?st1))"
      by (rule fetchData_grows)
    then show ?thesis unfolding eq by simp
  qed
qed

lemma session_grows:
  assumes step: "\<And>ev st. prefix (calls st) (calls (f ev st))"
  shows "prefix (calls st) (calls (session f ops st))"
proof (induction ops arbitrary: st)
  case Nil
  then show ?case by (simp add: session_def)
next
  case (Cons ev ops)
  have r: "session f (ev # ops) st = session f ops (f ev st)" by (simp add: session_def)
  have "prefix (calls st) (calls (f ev st))" by (rule step)
  also have "prefix (calls (f ev st)) (calls (session f ops (f ev st)))" by (rule Cons.IH)
  finally show ?case unfolding r .
qed

lemma engine_op_grows: "prefix (calls st) (calls (engine_op ev st))"
  by (cases ev)
     (simp_all add: engine_op_def engine_tick_def engine_update_def engine_fetchData_def Let_def
        fetchData_grows resume_grows)

lemma timing_op_grows: "prefix (calls st) (calls (timing_op ev st))"
  by (cases ev)
     (simp_all add: timing_op_def timing_tick_def timing_update_def timing_fetchData_def Let_def
        fetchData_grows resume_grows)

lemma emissions_op_grows: "prefix (calls st) (calls (emissions_op ev st))"
  by (cases ev)
     (simp_all add: emissions_op_def emissions_tick_def emissions_update_def emissions_fetchData_def Let_def
        fetchData_grows resume_grows)

lemma battery_op_grows: "prefix (calls st) (calls (battery_op ev st))"
  by (cases ev)
     (simp_all add: battery_op_def battery_tick_def battery_update_def fetchVoltage_def Let_def
        fetchData_grows resume_grows)

lemma battery_call_grows: "prefix (calls st) (calls (battery_call cl st))"
  by (cases cl) (simp_all add: battery_call_def quickPoll_def fetchVoltage_def battery_op_grows fetchData_grows)

lemma engine_calls_grow: "prefix (calls st) (calls (session engine_op ops st))"
  by (rule session_grows) (rule engine_op_grows)

lemma timing_calls_grow: "prefix (calls st) (calls (session timing_op ops st))"
  by (rule session_grows) (rule timing_op_grows)

lemma emissions_calls_grow: "prefix (calls st) (calls (session emissions_op ops st))"
  by (rule session_grows) (rule emissions_op_grows)

lemma battery_calls_grow: "prefix (calls st) (calls (session battery_call cls st))"
  by (rule session_grows) (rule battery_call_grows)






















lemmas page_defs = page_run_def page_step_def deliver_def toClient_def submit_def page_def boot_def

text \<open>
  Claim C8, as stated, has the flag cleared after a decode failure and says that once it is
  cleared the request code is never sent to the transport again. Three updates whose
  responses decode to \<open>null\<close> leave the flag set: it is the \<open>catch\<close> of a rejected request
  that clears it. And the ticks of a module overlap: while the first request for the
  timing advance waits for its time-out, the next two ticks find the flag still set and
  hand the same request to the kernel. When the first is rejected the module clears the
  flag, at 1003050; the kernel has two more requests with this code, and it writes the last
  of them at 1006100, although the module has made no call with this code since.
\<close>

theorem queued_request_written_after_flag_cleared:
  "timing (supported (self (session timing_op threeFailedFetches (loaded TimingApp))))
   \<and> \<not> timing (supported (self (client flagCleared)))
   \<and> now (kern flagCleared) = 1003050
   \<and> calls (client flagCleared) = [''010E'', ''010E'', ''010E'', ''0104'']
   \<and> written (kern flagCleared) = [(1000000, ''010E'' @ [CHR 0x0D]), (1003050, ''010E'' @ [CHR 0x0D])]
   \<and> written (kern (page_run nextTimeout flagCleared)) =
       written (kern flagCleared) @ [(1006100, ''010E'' @ [CHR 0x0D])]
   \<and> ''010E'' \<notin> set (newCalls (client flagCleared) (client (page_run nextTimeout flagCleared)))"
proof -
  have a: "\<not> timing (supported (self (client flagCleared)))"
    "calls (client flagCleared) = [''010E'', ''010E'', ''010E'', ''0104'']"
    by (simp_all add: flagCleared_def overlap_def page_defs poll_defs timing_defs kernel_defs)
  have b: "now (kern flagCleared) = 1003050"
    "written (kern flagCleared) = [(1000000, ''010E'' @ [CHR 0x0D]), (1003050, ''010E'' @ [CHR 0x0D])]"
    by (simp_all add: flagCleared_def overlap_def page_defs poll_defs timing_defs kernel_defs)
  have c: "written (kern (page_run nextTimeout flagCleared)) =
      [(1000000, ''010E'' @ [CHR 0x0D]), (1003050, ''010E'' @ [CHR 0x0D]), (1006100, ''010E'' @ [CHR 0x0D])]"
    by (simp add: flagCleared_def overlap_def nextTimeout_def page_defs poll_defs timing_defs kernel_defs)
  have d: "calls (client (page_run nextTimeout flagCleared)) = [''010E'', ''010E'', ''010E'', ''0104'', ''0104'']"
    by (simp add: flagCleared_def overlap_def nextTimeout_def page_defs poll_defs timing_defs kernel_defs)
  have n: "parseOBDResponse (Some ''NO DATA'') mode = None" for mode
    by (rule parseOBDResponse_error_marker) simp
  have f: "timing (supported (self (session timing_op threeFailedFetches (loaded TimingApp))))"
    by (simp add: threeFailedFetches_def poll_defs timing_defs n)
  show ?thesis
    by (simp add: a b c d f newCalls_def)
qed

text \<open>
  Claim C8, amended: in every polling module (engine, timing, emissions, battery), for
  every parameter that it samples under a flag, once the parameter is marked unsupported
  (its flag cleared) the flag is never set again, whatever ticks, settled requests,
  activations, deactivations, shutdowns and quick polls follow, and from then on the module
  makes no call of \<open>sendCommand\<close> with the request code of the parameter: the list of
  its calls only grows, and none of the new calls has that code.
\<close>

theorem supported_flags_latch:
  "(\<not> engine_flags.load (supported (self g)) \<longrightarrow>
      \<not> engine_flags.load (supported (self (session engine_op ops g)))
      \<and> code ENGINE_LOAD \<notin> set (newCalls g (session engine_op ops g)))
   \<and> (\<not> engine_flags.timing (supported (self g)) \<longrightarrow>
      \<not> engine_flags.timing (supported (self (session engine_op ops g)))
      \<and> code TIMING_ADVANCE \<notin> set (newCalls g (session engine_op ops g)))
   \<and> (\<not> iat (supported (self g)) \<longrightarrow>
      \<not> iat (supported (self (session engine_op ops g)))
      \<and> code INTAKE_TEMP \<notin> set (newCalls g (session engine_op ops g)))
   \<and> (\<not> engine_flags.maf (supported (self g)) \<longrightarrow>
      \<not> engine_flags.maf (supported (self (session engine_op ops g)))
      \<and> code MAF_RATE \<notin> set (newCalls g (session engine_op ops g)))
   \<and> (\<not> timing (supported (self t)) \<longrightarrow>
      \<not> timing (supported (self (session timing_op ops t)))
      \<and> code TIMING_ADVANCE \<notin> set (newCalls t (session timing_op ops t)))
   \<and> (\<not> load (supported (self t)) \<longrightarrow>
      \<not> load (supported (self (session timing_op ops t)))
      \<and> code ENGINE_LOAD \<notin> set (newCalls t (session timing_op ops t)))
   \<and> (\<not> stft1 (supported (self m)) \<longrightarrow>
      \<not> stft1 (supported (self (session emissions_op ops m)))
      \<and> code SHORT_FUEL_TRIM_1 \<notin> set (newCalls m (session emissions_op ops m)))
   \<and> (\<not> ltft1 (supported (self m)) \<longrightarrow>
      \<not> ltft1 (supported (self (session emissions_op ops m)))
      \<and> code LONG_FUEL_TRIM_1 \<notin> set (newCalls m (session emissions_op ops m)))
   \<and> (\<not> o2s1 (supported (self m)) \<longrightarrow>
      \<not> o2s1 (supported (self (session emissions_op ops m)))
      \<and> code O2_B1S1 \<notin> set (newCalls m (session emissions_op ops m)))
   \<and> (\<not> o2s2 (supported (self m)) \<longrightarrow>
      \<not> o2s2 (supported (self (session emissions_op ops m)))
      \<and> code O2_B1S2 \<notin> set (newCalls m (session emissions_op ops m)))
   \<and> (\<not> maf (supported (self m)) \<longrightarrow>
      \<not> maf (supported (self (session emissions_op ops m)))
      \<and> code MAF_RATE \<notin> set (newCalls m (session emissions_op ops m)))
   \<and> (\<not> supported (self b) \<longrightarrow>
      \<not> supported (self (session battery_call cls b))
      \<and> code BATTERY \<notin> set (newCalls b (session battery_call cls b)))
   \<and> prefix (calls g) (calls (session engine_op ops g))
   \<and> prefix (calls t) (calls (session timing_op ops t))
   \<and> prefix (calls m) (calls (session emissions_op ops m))
   \<and> prefix (calls b) (calls (session battery_call cls b))"
proof -
  have c: "code ENGINE_LOAD = ''0104''" "code TIMING_ADVANCE = ''010E''" "code INTAKE_TEMP = ''010F''"
    "code MAF_RATE = ''0110''" "code SHORT_FUEL_TRIM_1 = ''0106''" "code LONG_FUEL_TRIM_1 = ''0107''"
    "code O2_B1S1 = ''0114''" "code O2_B1S2 = ''0115''" "code BATTERY = ''0142''"
    by (simp_all add: pid_defs)
  show ?thesis
    unfolding c
    using engine_load_latch [of g ops] engine_timing_latch [of g ops] engine_iat_latch [of g ops]
      engine_maf_latch [of g ops] timing_timing_latch [of t ops] timing_load_latch [of t ops]
      emissions_stft1_latch [of m ops] emissions_ltft1_latch [of m ops] emissions_o2s1_latch [of m ops]
      emissions_o2s2_latch [of m ops] emissions_maf_latch [of m ops] battery_supported_latch [of b cls]
      engine_calls_grow [of g ops] timing_calls_grow [of t ops] emissions_calls_grow [of m ops]
      battery_calls_grow [of b cls]
    by blast
qed

lemma rejectedTiming_eq:
  "rejectedTiming =
     \<lparr> self = \<lparr> isActive = True, supported = \<lparr> timing = False, load = False \<rparr>,
                consecutiveErrors = 0, maxErrors = 3 \<rparr>,
       tasks = [], calls = [''010E'', ''0104''] \<rparr>"
  by (simp add: rejectedTiming_def allRejected_def upt_rec poll_defs timing_defs)

lemma rejectedEmissions_eq:
  "rejectedEmissions =
     \<lparr> self = \<lparr> isActive = True,
                supported = \<lparr> stft1 = False, ltft1 = False, o2s1 = False, o2s2 = False, maf = False \<rparr>,
                consecutiveErrors = 0, maxErrors = 3 \<rparr>,
       tasks = [], calls = [''0106'', ''0107'', ''0114'', ''0115'', ''0110''] \<rparr>"
  by (simp add: rejectedEmissions_def allRejected_def upt_rec poll_defs emissions_defs)

lemma rejectedEngine_eq:
  "rejectedEngine =
     \<lparr> self = \<lparr> isActive = True,
                supported = \<lparr> mapFlag = True, iat = False, maf = False, load = False, timing = False, baro = True \<rparr>,
                consecutiveErrors = 0, maxErrors = 3 \<rparr>,
       tasks = [], calls = [''010C'', ''010D'', ''0104'', ''010E'', ''010F'', ''0110''] \<rparr>"
  by (simp add: rejectedEngine_def allRejected_def upt_rec poll_defs engine_defs)

lemma rejectedBattery_eq:
  "rejectedBattery =
     \<lparr> self = \<lparr> isActive = True, supported = False, consecutiveErrors = 0, maxErrors = 3,
                voltageHistory = [], maxHistoryLength = 20 \<rparr>,
       tasks = [], calls = [''0142''] \<rparr>"
  by (simp add: rejectedBattery_def allRejected_def upt_rec poll_defs battery_defs)

text \<open>
  Witness for C8: each module after every request of its first update was rejected, then
  ticked, shut down, activated again and ticked (the battery module also asked for quick
  polls). The engine module goes on asking for the engine speed, which has no flag.
\<close>

theorem supported_flags_latch_witness:
  "\<not> engine_flags.load (supported (self rejectedEngine)) \<and> \<not> engine_flags.timing (supported (self rejectedEngine))
   \<and> \<not> iat (supported (self rejectedEngine)) \<and> \<not> engine_flags.maf (supported (self rejectedEngine))
   \<and> \<not> timing (supported (self rejectedTiming)) \<and> \<not> load (supported (self rejectedTiming))
   \<and> \<not> stft1 (supported (self rejectedEmissions)) \<and> \<not> ltft1 (supported (self rejectedEmissions))
   \<and> \<not> o2s1 (supported (self rejectedEmissions)) \<and> \<not> o2s2 (supported (self rejectedEmissions))
   \<and> \<not> maf (supported (self rejectedEmissions)) \<and> \<not> supported (self rejectedBattery)
   \<and> newCalls rejectedEngine (session engine_op restartOps rejectedEngine) = [''010C'', ''010C'']
   \<and> \<not> engine_flags.load (supported (self (session engine_op restartOps rejectedEngine)))
   \<and> code ENGINE_LOAD \<notin> set (newCalls rejectedEngine (session engine_op restartOps rejectedEngine))
   \<and> \<not> engine_flags.timing (supported (self (session engine_op restartOps rejectedEngine)))
   \<and> code TIMING_ADVANCE \<notin> set (newCalls rejectedEngine (session engine_op restartOps rejectedEngine))
   \<and> \<not> iat (supported (self (session engine_op restartOps rejectedEngine)))
   \<and> code INTAKE_TEMP \<notin> set (newCalls rejectedEngine (session engine_op restartOps rejectedEngine))
   \<and> \<not> engine_flags.maf (supported (self (session engine_op restartOps rejectedEngine)))
   \<and> code MAF_RATE \<notin> set (newCalls rejectedEngine (session engine_op restartOps rejectedEngine))
   \<and> \<not> timing (supported (self (session timing_op restartOps rejectedTiming)))
   \<and> code TIMING_ADVANCE \<notin> set (newCalls rejectedTiming (session timing_op restartOps rejectedTiming))
   \<and> \<not> load (supported (self (session timing_op restartOps rejectedTiming)))
   \<and> code ENGINE_LOAD \<notin> set (newCalls rejectedTiming (session timing_op restartOps rejectedTiming))
   \<and> \<not> stft1 (supported (self (session emissions_op restartOps rejectedEmissions)))
   \<and> code SHORT_FUEL_TRIM_1 \<notin> set (newCalls rejectedEmissions (session emissions_op restartOps rejectedEmissions))
   \<and> \<not> ltft1 (supported (self (session emissions_op restartOps rejectedEmissions)))
   \<and> code LONG_FUEL_TRIM_1 \<notin> set (newCalls rejectedEmissions (session emissions_op restartOps rejectedEmissions))
   \<and> \<not> o2s1 (supported (self (session emissions_op restartOps rejectedEmissions)))
   \<and> code O2_B1S1 \<notin> set (newCalls rejectedEmissions (session emissions_op restartOps rejectedEmissions))
   \<and> \<not> o2s2 (supported (self (session emissions_op restartOps rejectedEmissions)))
   \<and> code O2_B1S2 \<notin> set (newCalls rejectedEmissions (session emissions_op restartOps rejectedEmissions))
   \<and> \<not> maf (supported (self (session emissions_op restartOps rejectedEmissions)))
   \<and> code MAF_RATE \<notin> set (newCalls rejectedEmissions (session emissions_op restartOps rejectedEmissions))
   \<and> \<not> supported (self (session battery_call restartCalls rejectedBattery))
   \<and> code BATTERY \<notin> set (newCalls rejectedBattery (session battery_call restartCalls rejectedBattery))"
proof -
  have n: "\<not> engine_flags.load (supported (self rejectedEngine))" "\<not> engine_flags.timing (supported (self rejectedEngine))"
    "\<not> iat (supported (self rejectedEngine))" "\<not> engine_flags.maf (supported (self rejectedEngine))"
    by (simp_all add: rejectedEngine_eq)
  have t: "\<not> timing (supported (self rejectedTiming))" "\<not> load (supported (self rejectedTiming))"
    by (simp_all add: rejectedTiming_eq)
  have m: "\<not> stft1 (supported (self rejectedEmissions))" "\<not> ltft1 (supported (self rejectedEmissions))"
    "\<not> o2s1 (supported (self rejectedEmissions))" "\<not> o2s2 (supported (self rejectedEmissions))"
    "\<not> maf (supported (self rejectedEmissions))"
    by (simp_all add: rejectedEmissions_eq)
  have b: "\<not> supported (self rejectedBattery)"
    by (simp add: rejectedBattery_eq)
  have r: "newCalls rejectedEngine (session engine_op restartOps rejectedEngine) = [''010C'', ''010C'']"
    by (simp add: rejectedEngine_eq restartOps_def poll_defs engine_defs)
  show ?thesis
    using supported_flags_latch [of rejectedEngine restartOps rejectedTiming rejectedEmissions rejectedBattery restartCalls]
      n t m b r
    by blast
qed

end
